theory Spec2Isabelle
  imports Complex_Main "HOL-Library.Multiset"
begin

section \<open>Scalars\<close>

text \<open>
  The pixel scalar of the program is the C++ \<^verbatim>\<open>float\<close>. It is modelled by exact real
  arithmetic extended with the three non-finite values of IEEE 754, so that a division by
  zero is visible in the model as it is in the program: \<open>0/0\<close> is \<open>NaN\<close>, \<open>a/0\<close> is an
  infinity. Rounding, overflow, underflow and the sign of zero are not modelled: every
  statement below about finite values is a statement about the program computed in exact
  arithmetic. The machine integer \<^verbatim>\<open>coord_int\<close> (int32) is modelled by \<open>int\<close>; no
  statement below depends on a coordinate computation leaving the 32-bit range.
\<close>

datatype flt = Fin real | PInf | NInf | NaN

instantiation flt :: zero
begin
definition zero_flt :: flt where "zero_flt = Fin 0"
instance ..
end

fun fneg :: "flt \<Rightarrow> flt" where
  "fneg (Fin a) = Fin (- a)"
| "fneg PInf = NInf"
| "fneg NInf = PInf"
| "fneg NaN = NaN"

fun fadd :: "flt \<Rightarrow> flt \<Rightarrow> flt" where
  "fadd (Fin a) (Fin b) = Fin (a + b)"
| "fadd NaN _ = NaN"
| "fadd _ NaN = NaN"
| "fadd PInf NInf = NaN"
| "fadd NInf PInf = NaN"
| "fadd PInf _ = PInf"
| "fadd _ PInf = PInf"
| "fadd NInf _ = NInf"
| "fadd _ NInf = NInf"

definition fsub :: "flt \<Rightarrow> flt \<Rightarrow> flt" where
  "fsub a b = fadd a (fneg b)"

fun fmul :: "flt \<Rightarrow> flt \<Rightarrow> flt" where
  "fmul (Fin a) (Fin b) = Fin (a * b)"
| "fmul NaN _ = NaN"
| "fmul _ NaN = NaN"
| "fmul (Fin a) PInf = (if a = 0 then NaN else if 0 < a then PInf else NInf)"
| "fmul (Fin a) NInf = (if a = 0 then NaN else if 0 < a then NInf else PInf)"
| "fmul PInf (Fin b) = (if b = 0 then NaN else if 0 < b then PInf else NInf)"
| "fmul NInf (Fin b) = (if b = 0 then NaN else if 0 < b then NInf else PInf)"
| "fmul PInf PInf = PInf"
| "fmul PInf NInf = NInf"
| "fmul NInf PInf = NInf"
| "fmul NInf NInf = PInf"

fun fdiv :: "flt \<Rightarrow> flt \<Rightarrow> flt" where
  "fdiv (Fin a) (Fin b) =
     (if b = 0 then (if a = 0 then NaN else if 0 < a then PInf else NInf)
      else Fin (a / b))"
| "fdiv NaN _ = NaN"
| "fdiv _ NaN = NaN"
| "fdiv (Fin a) PInf = Fin 0"
| "fdiv (Fin a) NInf = Fin 0"
| "fdiv PInf (Fin b) = (if 0 \<le> b then PInf else NInf)"
| "fdiv NInf (Fin b) = (if 0 \<le> b then NInf else PInf)"
| "fdiv PInf PInf = NaN"
| "fdiv PInf NInf = NaN"
| "fdiv NInf PInf = NaN"
| "fdiv NInf NInf = NaN"

text \<open>The comparisons \<^verbatim>\<open><\<close> and \<^verbatim>\<open>==\<close> of floats: every comparison with \<open>NaN\<close> is false.\<close>

fun fless :: "flt \<Rightarrow> flt \<Rightarrow> bool" where
  "fless (Fin a) (Fin b) = (a < b)"
| "fless NaN _ = False"
| "fless _ NaN = False"
| "fless NInf NInf = False"
| "fless NInf _ = True"
| "fless _ NInf = False"
| "fless PInf _ = False"
| "fless _ PInf = True"

fun feq :: "flt \<Rightarrow> flt \<Rightarrow> bool" where
  "feq NaN _ = False"
| "feq _ NaN = False"
| "feq a b = (a = b)"

text \<open>\<^verbatim>\<open>std::min(a, b)\<close> is \<^verbatim>\<open>(b < a) ? b : a\<close> and \<^verbatim>\<open>std::max(a, b)\<close> is
  \<^verbatim>\<open>(a < b) ? b : a\<close>.\<close>

definition fmin :: "flt \<Rightarrow> flt \<Rightarrow> flt" where
  "fmin a b = (if fless b a then b else a)"

definition fmax :: "flt \<Rightarrow> flt \<Rightarrow> flt" where
  "fmax a b = (if fless a b then b else a)"

text \<open>\<^verbatim>\<open>clamp(x, min, max)\<close> of util.h, at type float and at type int.\<close>

definition clampf :: "flt \<Rightarrow> flt \<Rightarrow> flt \<Rightarrow> flt" where
  "clampf x lo hi = fmin (fmax x lo) hi"

definition clamp :: "int \<Rightarrow> int \<Rightarrow> int \<Rightarrow> int" where
  "clamp x lo hi = min (max x lo) hi"

fun fexp :: "flt \<Rightarrow> flt" where
  "fexp (Fin a) = Fin (exp a)"
| "fexp PInf = PInf"
| "fexp NInf = Fin 0"
| "fexp NaN = NaN"

text \<open>Integer division and remainder of C++ truncate towards zero.\<close>

definition c_div :: "int \<Rightarrow> int \<Rightarrow> int" where
  "c_div a b = sgn a * sgn b * (\<bar>a\<bar> div \<bar>b\<bar>)"

definition c_mod :: "int \<Rightarrow> int \<Rightarrow> int" where
  "c_mod a b = a - b * c_div a b"

section \<open>Coordinates, pixels, views and images\<close>

text \<open>util.h: \<^verbatim>\<open>coord_int\<close> is \<^verbatim>\<open>int32_t\<close>. \<open>coord_int x\<close> is the 32-bit value that a conversion
  to \<^verbatim>\<open>coord_int\<close> leaves for the integer \<open>x\<close> (two's complement), and \<open>size_t x\<close> is the
  conversion of an integer to the 64-bit \<^verbatim>\<open>size_t\<close>. The conversions of the program are
  modelled with them: the narrowing of a \<^verbatim>\<open>size_t\<close> argument in \<^verbatim>\<open>boxFilter\<close> and in
  \<^verbatim>\<open>getDepthFromHazyImage\<close>, and the number of pixels \<^verbatim>\<open>size_t(width*height)\<close> of the
  constructors, whose product wraps around as the compiled program computes it. The other
  arithmetic on coordinates, extents and indices is modelled on the integers: a signed
  overflow is undefined in C++, and the statements are about executions without one.\<close>

definition coord_int :: "int \<Rightarrow> int" where
  "coord_int x = (x + 2 ^ 31) mod 2 ^ 32 - 2 ^ 31"

definition size_t :: "int \<Rightarrow> nat" where
  "size_t x = nat (x mod 2 ^ 64)"

type_synonym Coord = "int \<times> int"

definition coord_add :: "Coord \<Rightarrow> Coord \<Rightarrow> Coord" where
  "coord_add l r = (fst l + fst r, snd l + snd r)"

definition coord_sub :: "Coord \<Rightarrow> Coord \<Rightarrow> Coord" where
  "coord_sub l r = (fst l - fst r, snd l - snd r)"

text \<open>pixel.h: three channels, read by \<^verbatim>\<open>r()\<close>, \<^verbatim>\<open>g()\<close> and \<^verbatim>\<open>b()\<close>.\<close>

datatype Pixel = Pixel (red: flt) (green: flt) (blue: flt)

instantiation Pixel :: zero
begin
definition zero_Pixel :: Pixel where "zero_Pixel = Pixel (Fin 0) (Fin 0) (Fin 0)"
instance ..
end

definition pixel_add :: "Pixel \<Rightarrow> Pixel \<Rightarrow> Pixel" where
  "pixel_add l r = Pixel (fadd (red l) (red r)) (fadd (green l) (green r)) (fadd (blue l) (blue r))"

definition pixel_sub :: "Pixel \<Rightarrow> Pixel \<Rightarrow> Pixel" where
  "pixel_sub l r = Pixel (fsub (red l) (red r)) (fsub (green l) (green r)) (fsub (blue l) (blue r))"

definition pixel_scale :: "Pixel \<Rightarrow> flt \<Rightarrow> Pixel" where
  "pixel_scale p f = Pixel (fmul (red p) f) (fmul (green p) f) (fmul (blue p) f)"

definition pixel_div :: "Pixel \<Rightarrow> flt \<Rightarrow> Pixel" where
  "pixel_div p d = Pixel (fdiv (red p) d) (fdiv (green p) d) (fdiv (blue p) d)"

definition getLuminance :: "Pixel \<Rightarrow> flt" where
  "getLuminance p =
     fadd (fadd (fmul (Fin 0.2126) (red p)) (fmul (Fin 0.7152) (green p)))
          (fmul (Fin 0.0722) (blue p))"

definition getSaturation :: "Pixel \<Rightarrow> flt" where
  "getSaturation p =
     (let maxChannel = fmax (fmax (red p) (green p)) (blue p);
          minChannel = fmin (fmin (red p) (green p)) (blue p);
          v = getLuminance p
      in if feq v (Fin 0) then Fin 0 else fdiv (fsub maxChannel minChannel) v)"

text \<open>image_view.h. The constructor clamps the offset at zero and stores the extents
  as they are given.\<close>

record ImageView =
  view_offset :: Coord
  view_width :: int
  view_height :: int

definition ImageView :: "Coord \<Rightarrow> int \<Rightarrow> int \<Rightarrow> ImageView" where
  "ImageView offset width height =
     \<lparr>view_offset = (max 0 (fst offset), max 0 (snd offset)),
      view_width = width, view_height = height\<rparr>"

definition subView :: "ImageView \<Rightarrow> Coord \<Rightarrow> int \<Rightarrow> int \<Rightarrow> ImageView" where
  "subView v offset width height = ImageView (coord_add (view_offset v) offset) width height"

definition centredSubView :: "ImageView \<Rightarrow> Coord \<Rightarrow> int \<Rightarrow> int \<Rightarrow> ImageView" where
  "centredSubView v centre width height =
     subView v (coord_sub centre (c_div width 2, c_div height 2)) width height"

datatype error =
    ImageError          \<comment> \<open>the exception of image.h\<close>
  | LengthError         \<comment> \<open>\<^verbatim>\<open>std::vector\<close> asked for a negative number of elements\<close>
  | AssertionFailure    \<comment> \<open>a failed \<^verbatim>\<open>assert\<close>\<close>
  | DivisionByZero      \<comment> \<open>integer division by zero\<close>
  | Diverges            \<comment> \<open>a loop that never ends\<close>

text \<open>
  The range-based \<^verbatim>\<open>for\<close> over a view: start at \<^verbatim>\<open>begin() = (0, 0)\<close>, stop when the
  iterator equals \<^verbatim>\<open>end() = (0, height)\<close>, hand \<^verbatim>\<open>offset + coord\<close> to the body, advance
  with \<^verbatim>\<open>operator++\<close>. The loop need not end, so it is a partial function: \<open>None\<close> is a
  loop that runs forever.
\<close>

definition advance :: "ImageView \<Rightarrow> Coord \<Rightarrow> Coord" where
  "advance v c =
     (let newX = fst c + 1
      in (c_mod newX (view_width v), snd c + c_div newX (view_width v)))"

partial_function (option) iterate ::
  "ImageView \<Rightarrow> Coord \<Rightarrow> Coord list \<Rightarrow> (error + Coord list) option" where
  "iterate v c acc =
     (if c = (0, view_height v) then Some (Inr (rev acc))
      else if view_width v = 0 then Some (Inl DivisionByZero)
      else iterate v (advance v c) (coord_add (view_offset v) c # acc))"

definition forView :: "ImageView \<Rightarrow> error + Coord list" where
  "forView v = (case iterate v (0, 0) [] of None \<Rightarrow> Inl Diverges | Some r \<Rightarrow> r)"

text \<open>image.h. \<^verbatim>\<open>BaseImage<PixelT>\<close>: the two dimensions and the pixel vector.\<close>

record 'p BaseImage =
  m_width :: int
  m_height :: int
  m_data :: "'p list"

type_synonym ImageGrey = "flt BaseImage"
type_synonym ImageRgb = "Pixel BaseImage"

text \<open>The three constructors. The product \<^verbatim>\<open>width*height\<close> is a product of two
  \<^verbatim>\<open>coord_int\<close>. \<^verbatim>\<open>size_t(width*height)\<close> of a negative product is at least \<open>2\<^sup>6\<^sup>4 - 2\<^sup>3\<^sup>1\<close>,
  for which the vector's constructor throws.\<close>

definition BaseImage_dims :: "int \<Rightarrow> int \<Rightarrow> error + ('p::zero) BaseImage" where
  "BaseImage_dims width height =
     (if coord_int (width * height) < 0 then Inl LengthError
      else Inr \<lparr>m_width = width, m_height = height,
                m_data = replicate (size_t (coord_int (width * height))) 0\<rparr>)"

text \<open>From a raw pointer: the memory behind the pointer is the list \<open>mem\<close>, of which
  \<^verbatim>\<open>width*height\<close> elements are copied. The constructor delegates to the first one, which
  has sized the vector already, and then appends through \<^verbatim>\<open>std::back_inserter\<close>.\<close>

definition BaseImage_ptr :: "int \<Rightarrow> int \<Rightarrow> 'p list \<Rightarrow> error + ('p::zero) BaseImage" where
  "BaseImage_ptr width height mem =
     (case BaseImage_dims width height of
        Inl e \<Rightarrow> Inl e
      | Inr img \<Rightarrow>
          Inr (img\<lparr>m_data := m_data img @ take (nat (coord_int (width * height))) mem\<rparr>))"

definition BaseImage_move :: "int \<Rightarrow> int \<Rightarrow> 'p list \<Rightarrow> error + 'p BaseImage" where
  "BaseImage_move width height data' =
     (if size_t (coord_int (width * height)) > length data' then Inl AssertionFailure
      else Inr \<lparr>m_width = width, m_height = height, m_data = data'\<rparr>)"

definition data_size :: "'p BaseImage \<Rightarrow> nat" where
  "data_size img = length (m_data img)"

definition getView_at :: "'p BaseImage \<Rightarrow> Coord \<Rightarrow> int \<Rightarrow> int \<Rightarrow> ImageView" where
  "getView_at img offset width height =
     ImageView (max 0 (fst offset), max 0 (snd offset))
       (clamp 0 (m_width img - fst offset) width)
       (clamp 0 (m_height img - snd offset) height)"

definition getView :: "'p BaseImage \<Rightarrow> ImageView" where
  "getView img = getView_at img (0, 0) (m_width img) (m_height img)"

text \<open>\<^verbatim>\<open>operator[]\<close>: the coordinate is clamped to the image, then turned into the index
  \<^verbatim>\<open>y * width + x\<close>. The program asserts that the index is inside the vector; the invariant
  \<open>wf_image\<close> below is what makes the assertion hold on a non-empty image.\<close>

definition getIndexUnsafe :: "'p BaseImage \<Rightarrow> Coord \<Rightarrow> int" where
  "getIndexUnsafe img c = snd c * m_width img + fst c"

definition getIndex :: "'p BaseImage \<Rightarrow> Coord \<Rightarrow> int" where
  "getIndex img c =
     getIndexUnsafe img (clamp (fst c) 0 (m_width img - 1), clamp (snd c) 0 (m_height img - 1))"

definition pixel_at :: "'p BaseImage \<Rightarrow> Coord \<Rightarrow> 'p" where
  "pixel_at img c = m_data img ! nat (getIndex img c)"

definition set_pixel :: "'p BaseImage \<Rightarrow> Coord \<Rightarrow> 'p \<Rightarrow> 'p BaseImage" where
  "set_pixel img c p = img\<lparr>m_data := (m_data img)[nat (getIndex img c) := p]\<rparr>"

text \<open>The invariant of an image: the dimensions are not negative, their product is a
  \<^verbatim>\<open>coord_int\<close> (the program computes the number of pixels and the indices in that type), and the
  vector holds that many pixels.\<close>

definition wf_image :: "'p BaseImage \<Rightarrow> bool" where
  "wf_image img \<longleftrightarrow>
     0 \<le> m_width img \<and> 0 \<le> m_height img \<and> m_width img * m_height img < 2 ^ 31 \<and>
     length (m_data img) = nat (m_width img * m_height img)"

subsection \<open>Arithmetic of images\<close>

definition checkSizes :: "'p BaseImage \<Rightarrow> 'p BaseImage \<Rightarrow> error + unit" where
  "checkSizes l r =
     (if m_width l \<noteq> m_width r \<or> m_height l \<noteq> m_height r then Inl ImageError else Inr ())"

definition binaryOp ::
  "('p::zero) BaseImage \<Rightarrow> 'p BaseImage \<Rightarrow> ('p \<Rightarrow> 'p \<Rightarrow> 'p) \<Rightarrow> error + 'p BaseImage" where
  "binaryOp l r op =
     (case checkSizes l r of
        Inl e \<Rightarrow> Inl e
      | Inr _ \<Rightarrow>
          (case BaseImage_dims (m_width l) (m_height l) of
             Inl e \<Rightarrow> Inl e
           | Inr out \<Rightarrow>
               Inr (fold (\<lambda>i out. out\<lparr>m_data := (m_data out)[i := op (m_data l ! i) (m_data r ! i)]\<rparr>)
                      [0..<length (m_data l)] out)))"

definition binaryAssignmentOp ::
  "'p BaseImage \<Rightarrow> 'p BaseImage \<Rightarrow> ('p \<Rightarrow> 'p \<Rightarrow> 'p) \<Rightarrow> error + 'p BaseImage" where
  "binaryAssignmentOp l r op =
     (case checkSizes l r of
        Inl e \<Rightarrow> Inl e
      | Inr _ \<Rightarrow>
          Inr (fold (\<lambda>i l'. l'\<lparr>m_data := (m_data l')[i := op (m_data l' ! i) (m_data r ! i)]\<rparr>)
                 [0..<length (m_data l)] l))"

text \<open>The operators between two images, and between an image and a float.\<close>

definition image_add :: "ImageGrey \<Rightarrow> ImageGrey \<Rightarrow> error + ImageGrey" where
  "image_add l r = binaryOp l r fadd"

definition image_sub :: "ImageGrey \<Rightarrow> ImageGrey \<Rightarrow> error + ImageGrey" where
  "image_sub l r = binaryOp l r fsub"

definition image_mul :: "ImageGrey \<Rightarrow> ImageGrey \<Rightarrow> error + ImageGrey" where
  "image_mul l r = binaryOp l r fmul"

definition image_div :: "ImageGrey \<Rightarrow> ImageGrey \<Rightarrow> error + ImageGrey" where
  "image_div l r = binaryOp l r fdiv"

definition image_add_assign :: "ImageGrey \<Rightarrow> ImageGrey \<Rightarrow> error + ImageGrey" where
  "image_add_assign l r = binaryAssignmentOp l r fadd"

definition image_sub_assign :: "ImageGrey \<Rightarrow> ImageGrey \<Rightarrow> error + ImageGrey" where
  "image_sub_assign l r = binaryAssignmentOp l r fsub"

definition image_mul_assign :: "ImageGrey \<Rightarrow> ImageGrey \<Rightarrow> error + ImageGrey" where
  "image_mul_assign l r = binaryAssignmentOp l r fmul"

definition image_div_assign :: "ImageGrey \<Rightarrow> ImageGrey \<Rightarrow> error + ImageGrey" where
  "image_div_assign l r = binaryAssignmentOp l r fdiv"

definition scalarOp :: "'p BaseImage \<Rightarrow> flt \<Rightarrow> ('p \<Rightarrow> flt \<Rightarrow> 'p) \<Rightarrow> 'p BaseImage" where
  "scalarOp l v op = l\<lparr>m_data := map (\<lambda>p. op p v) (m_data l)\<rparr>"

definition image_add_scalar :: "ImageGrey \<Rightarrow> flt \<Rightarrow> ImageGrey" where
  "image_add_scalar l v = scalarOp l v fadd"

section \<open>filters.h: normalise\<close>

text \<open>\<^verbatim>\<open>std::numeric_limits<float>::max()\<close> is the largest finite float and
  \<^verbatim>\<open>std::numeric_limits<float>::min()\<close> is the smallest positive normalised float.\<close>

definition FLT_MAX :: real where
  "FLT_MAX = (2 ^ 24 - 1) * 2 ^ 104"

definition FLT_MIN :: real where
  "FLT_MIN = 1 / 2 ^ 126"

definition normalise :: "ImageGrey \<Rightarrow> ImageGrey" where
  "normalise img =
     (let (mn, mx) = fold (\<lambda>p (mn, mx). (fmin mn p, fmax mx p)) (m_data img)
                       (Fin FLT_MAX, Fin FLT_MIN)
      in img\<lparr>m_data := map (\<lambda>p. fdiv (fsub p mn) (fsub mx mn)) (m_data img)\<rparr>)"

section \<open>filters.tpp: the box filter\<close>

text \<open>
  The template is instantiated by the program at \<^verbatim>\<open>PixelT = float\<close> only, and is modelled
  at that type. \<open>window_step\<close> is one iteration of the inner loop for the row or column
  \<open>line\<close>, on the state \<^verbatim>\<open>(accum, weight, rowOrColumn)\<close>.
\<close>

definition pass_coord :: "bool \<Rightarrow> int \<Rightarrow> int \<Rightarrow> Coord" where
  "pass_coord vertical i k = (if vertical then (i, k) else (k, i))"

definition window_step ::
  "(int \<Rightarrow> flt) \<Rightarrow> int \<Rightarrow> int \<Rightarrow> int \<Rightarrow> flt \<times> int \<times> flt list \<Rightarrow> flt \<times> int \<times> flt list" where
  "window_step line windowSize innerSize k st =
     (case st of (accum, weight, rowOrColumn) \<Rightarrow>
        let halfWindowSize = c_div windowSize 2;
            weight1 = (if k < windowSize then weight + 1 else weight);
            accum1 = (if k < windowSize then accum else fsub accum (line (k - windowSize)));
            accum2 = (if k < innerSize then fadd accum1 (line k) else accum1);
            weight2 = (if k < innerSize then weight1 else weight1 - 1)
        in (accum2, weight2,
            if halfWindowSize \<le> k
            then rowOrColumn[nat (k - halfWindowSize) := fdiv accum2 (Fin (of_int weight2))]
            else rowOrColumn))"

definition window_loop :: "(int \<Rightarrow> flt) \<Rightarrow> int \<Rightarrow> int \<Rightarrow> flt list \<Rightarrow> flt \<times> int \<times> flt list" where
  "window_loop line windowSize innerSize rowOrColumn =
     fold (window_step line windowSize innerSize)
       (map int [0..<nat (innerSize + c_div windowSize 2)]) (0, 0, rowOrColumn)"

definition copy_back :: "bool \<Rightarrow> int \<Rightarrow> int \<Rightarrow> flt list \<Rightarrow> ImageGrey \<Rightarrow> ImageGrey" where
  "copy_back vertical innerSize i rowOrColumn img =
     fold (\<lambda>k img. set_pixel img (pass_coord vertical i (int k)) (rowOrColumn ! k))
       [0..<nat innerSize] img"

definition pass_line :: "bool \<Rightarrow> int \<Rightarrow> int \<Rightarrow> int \<Rightarrow> ImageGrey \<times> flt list \<Rightarrow> ImageGrey \<times> flt list" where
  "pass_line vertical windowSize innerSize i st =
     (case st of (img, rowOrColumn) \<Rightarrow>
        let rowOrColumn1 = snd (snd (window_loop (\<lambda>k. pixel_at img (pass_coord vertical i k))
                                       windowSize innerSize rowOrColumn))
        in (copy_back vertical innerSize i rowOrColumn1 img, rowOrColumn1))"

definition boxFilterPass :: "bool \<Rightarrow> ImageGrey \<Rightarrow> int \<Rightarrow> ImageGrey" where
  "boxFilterPass vertical img windowSize =
     (let outerSize = (if vertical then m_width img else m_height img);
          innerSize = (if vertical then m_height img else m_width img)
      in fst (fold (\<lambda>i. pass_line vertical windowSize innerSize (int i)) [0..<nat outerSize]
                (img, replicate (nat innerSize) 0)))"

text \<open>\<^verbatim>\<open>boxFilter\<close> narrows its argument, a \<^verbatim>\<open>size_t\<close>, to \<^verbatim>\<open>coord_int\<close>.\<close>

definition boxFilter :: "ImageGrey \<Rightarrow> nat \<Rightarrow> ImageGrey" where
  "boxFilter img r =
     (let radius = coord_int (int r)
      in boxFilterPass True (boxFilterPass False img radius) radius)"

section \<open>image.cpp: channels\<close>

definition splitChannels :: "ImageRgb \<Rightarrow> error + (ImageGrey \<times> ImageGrey \<times> ImageGrey)" where
  "splitChannels img =
     (case forView (getView img) of
        Inl e \<Rightarrow> Inl e
      | Inr coords \<Rightarrow>
          (let ps = map (pixel_at img) coords
           in case BaseImage_move (m_width img) (m_height img) (map red ps) of
                Inl e \<Rightarrow> Inl e
              | Inr cr \<Rightarrow>
                  (case BaseImage_move (m_width img) (m_height img) (map green ps) of
                     Inl e \<Rightarrow> Inl e
                   | Inr cg \<Rightarrow>
                       (case BaseImage_move (m_width img) (m_height img) (map blue ps) of
                          Inl e \<Rightarrow> Inl e
                        | Inr cb \<Rightarrow> Inr (cr, cg, cb)))))"

section \<open>guided_filter.cpp: the values computed from the guide\<close>

text \<open>Operands that may have failed: the first failure is the result.\<close>

definition and_then :: "error + 'a \<Rightarrow> ('a \<Rightarrow> error + 'b) \<Rightarrow> error + 'b" where
  "and_then a f = (case a of Inl e \<Rightarrow> Inl e | Inr x \<Rightarrow> f x)"

definition lift1 :: "('a \<Rightarrow> 'b) \<Rightarrow> error + 'a \<Rightarrow> error + 'b" where
  "lift1 f a = (case a of Inl e \<Rightarrow> Inl e | Inr x \<Rightarrow> Inr (f x))"

definition lift2 :: "('a \<Rightarrow> 'b \<Rightarrow> error + 'c) \<Rightarrow> error + 'a \<Rightarrow> error + 'b \<Rightarrow> error + 'c" where
  "lift2 f a b =
     (case a of Inl e \<Rightarrow> Inl e | Inr x \<Rightarrow> (case b of Inl e \<Rightarrow> Inl e | Inr y \<Rightarrow> f x y))"

record GuidedFilterValues =
  radius :: nat
  I_r :: ImageGrey
  I_g :: ImageGrey
  I_b :: ImageGrey
  mean_I_r :: ImageGrey
  mean_I_g :: ImageGrey
  mean_I_b :: ImageGrey
  var_I_rr :: ImageGrey
  var_I_rg :: ImageGrey
  var_I_rb :: ImageGrey
  var_I_gg :: ImageGrey
  var_I_gb :: ImageGrey
  var_I_bb :: ImageGrey
  invrr :: ImageGrey
  invrg :: ImageGrey
  invrb :: ImageGrey
  invgg :: ImageGrey
  invgb :: ImageGrey
  invbb :: ImageGrey

text \<open>\<open>covariance box a b ma mb\<close> is \<^verbatim>\<open>boxFilter(a * b, radius) - ma * mb\<close> and
  \<open>cofactor a b c d\<close> is \<^verbatim>\<open>a * b - c * d\<close>.\<close>

definition covariance ::
  "nat \<Rightarrow> ImageGrey \<Rightarrow> ImageGrey \<Rightarrow> ImageGrey \<Rightarrow> ImageGrey \<Rightarrow> error + ImageGrey" where
  "covariance rad a b ma mb =
     lift2 image_sub (lift1 (\<lambda>x. boxFilter x rad) (image_mul a b)) (image_mul ma mb)"

definition cofactor ::
  "ImageGrey \<Rightarrow> ImageGrey \<Rightarrow> ImageGrey \<Rightarrow> ImageGrey \<Rightarrow> error + ImageGrey" where
  "cofactor a b c d = lift2 image_sub (image_mul a b) (image_mul c d)"

text \<open>The member initialisers of the constructor: the means, the regularised covariances
  and the six cofactors.\<close>

definition GuidedFilterValues_init :: "ImageRgb \<Rightarrow> nat \<Rightarrow> flt \<Rightarrow> error + GuidedFilterValues" where
  "GuidedFilterValues_init guide r eps =
     (let rad = r * 2 + 1 in
      and_then (splitChannels guide) (\<lambda>I.
        let Ir = fst I; Ig = fst (snd I); Ib = snd (snd I);
            mr = boxFilter Ir rad; mg = boxFilter Ig rad; mb = boxFilter Ib rad
        in
        and_then (lift1 (\<lambda>x. image_add_scalar x eps) (covariance rad Ir Ir mr mr)) (\<lambda>vrr.
        and_then (covariance rad Ir Ig mr mg) (\<lambda>vrg.
        and_then (covariance rad Ir Ib mr mb) (\<lambda>vrb.
        and_then (lift1 (\<lambda>x. image_add_scalar x eps) (covariance rad Ig Ig mg mg)) (\<lambda>vgg.
        and_then (covariance rad Ig Ib mg mb) (\<lambda>vgb.
        and_then (lift1 (\<lambda>x. image_add_scalar x eps) (covariance rad Ib Ib mb mb)) (\<lambda>vbb.
        and_then (cofactor vgg vbb vgb vgb) (\<lambda>irr.
        and_then (cofactor vgb vrb vrg vbb) (\<lambda>irg.
        and_then (cofactor vrg vgb vgg vrb) (\<lambda>irb.
        and_then (cofactor vrr vbb vrb vrb) (\<lambda>igg.
        and_then (cofactor vrb vrg vrr vgb) (\<lambda>igb.
        and_then (cofactor vrr vgg vrg vrg) (\<lambda>ibb.
          Inr \<lparr>radius = rad, I_r = Ir, I_g = Ig, I_b = Ib,
               mean_I_r = mr, mean_I_g = mg, mean_I_b = mb,
               var_I_rr = vrr, var_I_rg = vrg, var_I_rb = vrb,
               var_I_gg = vgg, var_I_gb = vgb, var_I_bb = vbb,
               invrr = irr, invrg = irg, invrb = irb,
               invgg = igg, invgb = igb, invbb = ibb\<rparr>))))))))))))))"

text \<open>The body of the constructor: the determinant, and the six divisions by it.\<close>

definition covDet :: "GuidedFilterValues \<Rightarrow> error + ImageGrey" where
  "covDet v =
     lift2 image_add
       (lift2 image_add (image_mul (invrr v) (var_I_rr v)) (image_mul (invrg v) (var_I_rg v)))
       (image_mul (invrb v) (var_I_rb v))"

definition divide_by_covDet :: "GuidedFilterValues \<Rightarrow> ImageGrey \<Rightarrow> error + GuidedFilterValues" where
  "divide_by_covDet v d =
     and_then (image_div_assign (invrr v) d) (\<lambda>irr.
     and_then (image_div_assign (invrg v) d) (\<lambda>irg.
     and_then (image_div_assign (invrb v) d) (\<lambda>irb.
     and_then (image_div_assign (invgg v) d) (\<lambda>igg.
     and_then (image_div_assign (invgb v) d) (\<lambda>igb.
     and_then (image_div_assign (invbb v) d) (\<lambda>ibb.
       Inr (v\<lparr>invrr := irr, invrg := irg, invrb := irb,
               invgg := igg, invgb := igb, invbb := ibb\<rparr>)))))))"

definition GuidedFilterValues :: "ImageRgb \<Rightarrow> nat \<Rightarrow> flt \<Rightarrow> error + GuidedFilterValues" where
  "GuidedFilterValues guide r eps =
     and_then (GuidedFilterValues_init guide r eps) (\<lambda>v.
     and_then (covDet v) (\<lambda>d. divide_by_covDet v d))"

section \<open>haze_removal.cpp\<close>

definition theta0 :: flt where "theta0 = Fin 0.121779"
definition theta1 :: flt where "theta1 = Fin 0.959710"
definition theta2 :: flt where "theta2 = Fin (- 0.780245)"

definition pixel_depth :: "Pixel \<Rightarrow> flt" where
  "pixel_depth p =
     clampf (fadd (fadd theta0 (fmul (getLuminance p) theta1)) (fmul (getSaturation p) theta2))
       (Fin 0) (Fin 1)"

text \<open>The first loop of \<^verbatim>\<open>getDepthFromHazyImage\<close>: the clamped depth of every pixel.\<close>

definition attenuation_prior :: "ImageRgb \<Rightarrow> error + ImageGrey" where
  "attenuation_prior img =
     (case BaseImage_dims (m_width img) (m_height img) of
        Inl e \<Rightarrow> Inl e
      | Inr result \<Rightarrow>
          (case forView (getView img) of
             Inl e \<Rightarrow> Inl e
           | Inr coords \<Rightarrow>
               Inr (fold (\<lambda>coord result. set_pixel result coord (pixel_depth (pixel_at img coord)))
                      coords result)))"

text \<open>The second loop, the square minimum filter: for every coordinate of the view, the
  minimum of \<open>tmp\<close> over the centred sub-view, starting from \<^verbatim>\<open>1.0f\<close>. The kernel size, a
  \<^verbatim>\<open>size_t\<close>, is narrowed to \<^verbatim>\<open>coord_int\<close>.\<close>

definition window_min :: "ImageGrey \<Rightarrow> Coord list \<Rightarrow> flt" where
  "window_min tmp subCoords = fold (\<lambda>subCoord m. fmin m (pixel_at tmp subCoord)) subCoords (Fin 1)"

fun min_filter_loop ::
  "ImageGrey \<Rightarrow> ImageView \<Rightarrow> int \<Rightarrow> Coord list \<Rightarrow> ImageGrey \<Rightarrow> error + ImageGrey" where
  "min_filter_loop tmp view kernelSize [] result = Inr result"
| "min_filter_loop tmp view kernelSize (coord # coords) result =
     (case forView (centredSubView view coord kernelSize kernelSize) of
        Inl e \<Rightarrow> Inl e
      | Inr subCoords \<Rightarrow>
          min_filter_loop tmp view kernelSize coords
            (set_pixel result coord (window_min tmp subCoords)))"

definition min_filter :: "ImageGrey \<Rightarrow> nat \<Rightarrow> error + ImageGrey" where
  "min_filter result kernelSize =
     (let tmp = result; view = getView tmp
      in case forView view of
           Inl e \<Rightarrow> Inl e
         | Inr coords \<Rightarrow> min_filter_loop tmp view (coord_int (int kernelSize)) coords result)"

text \<open>The depth map before the final call of \<open>normalise\<close>, and the whole function.\<close>

definition depth_before_normalise :: "ImageRgb \<Rightarrow> nat \<Rightarrow> error + ImageGrey" where
  "depth_before_normalise img kernelSize =
     (case attenuation_prior img of
        Inl e \<Rightarrow> Inl e
      | Inr result \<Rightarrow> min_filter result kernelSize)"

definition getDepthFromHazyImage :: "ImageRgb \<Rightarrow> nat \<Rightarrow> error + ImageGrey" where
  "getDepthFromHazyImage img kernelSize = lift1 normalise (depth_before_normalise img kernelSize)"

text \<open>
  \<^verbatim>\<open>removeHaze\<close>. \<^verbatim>\<open>std::nth_element\<close> belongs to the standard library and is a parameter
  \<open>nth_element\<close> of the model: \<open>nth_element n cmp xs\<close> is the rearranged sequence.
  \<open>nth_element_post\<close> is what the C++ standard promises of the call.
\<close>

type_synonym nth_element_fn = "nat \<Rightarrow> (Coord \<Rightarrow> Coord \<Rightarrow> bool) \<Rightarrow> Coord list \<Rightarrow> Coord list"

definition nth_element_post :: "nat \<Rightarrow> (Coord \<Rightarrow> Coord \<Rightarrow> bool) \<Rightarrow> Coord list \<Rightarrow> Coord list \<Rightarrow> bool" where
  "nth_element_post n cmp xs ys \<longleftrightarrow>
     mset ys = mset xs \<and>
     (\<forall>i < n. \<forall>j < length ys. n \<le> j \<longrightarrow> \<not> cmp (ys ! j) (ys ! i))"

definition farther :: "ImageGrey \<Rightarrow> Coord \<Rightarrow> Coord \<Rightarrow> bool" where
  "farther depth a b = fless (pixel_at depth b) (pixel_at depth a)"

definition nHighest :: "ImageGrey \<Rightarrow> nat" where
  "nHighest depth = length (m_data depth) div 1000"

definition brightest :: "ImageRgb \<Rightarrow> Coord list \<Rightarrow> nat \<Rightarrow> Pixel" where
  "brightest img coords n =
     fold (\<lambda>i A. let inPixel = pixel_at img (coords ! i)
                 in if fless (getLuminance A) (getLuminance inPixel) then inPixel else A)
       [0..<n] 0"

definition atmospheric_light :: "nth_element_fn \<Rightarrow> ImageRgb \<Rightarrow> ImageGrey \<Rightarrow> error + Pixel" where
  "atmospheric_light nth_element img depth =
     (case forView (getView depth) of
        Inl e \<Rightarrow> Inl e
      | Inr coords \<Rightarrow>
          Inr (brightest img (nth_element (nHighest depth) (farther depth) coords)
                 (nHighest depth)))"

definition transmission :: "flt \<Rightarrow> flt \<Rightarrow> flt" where
  "transmission beta d = fmax (Fin 0.1) (fmin (Fin 0.9) (fexp (fmul (fneg beta) d)))"

definition radiance :: "Pixel \<Rightarrow> Pixel \<Rightarrow> flt \<Rightarrow> Pixel" where
  "radiance A inPixel t = pixel_add A (pixel_div (pixel_sub inPixel A) t)"

definition removeHaze ::
  "nth_element_fn \<Rightarrow> ImageRgb \<Rightarrow> ImageGrey \<Rightarrow> flt \<Rightarrow> error + ImageRgb" where
  "removeHaze nth_element img depth beta =
     (if \<not> (m_width img = m_width depth \<and> m_height img = m_height depth)
      then Inl AssertionFailure
      else case atmospheric_light nth_element img depth of
             Inl e \<Rightarrow> Inl e
           | Inr A \<Rightarrow>
               (case BaseImage_dims (m_width img) (m_height img) of
                  Inl e \<Rightarrow> Inl e
                | Inr out \<Rightarrow>
                    Inr (fold (\<lambda>i out. out\<lparr>m_data := (m_data out)
                                 [i := radiance A (m_data img ! i)
                                         (transmission beta (m_data depth ! i))]\<rparr>)
                           [0..<length (m_data out)] out)))"

section \<open>Notions used in the statements\<close>

text \<open>The \<open>k\<close>-th coordinate of a view in row-major order: column \<open>k mod width\<close> of row
  \<open>k div width\<close>, moved by the offset of the view.\<close>

definition row_major :: "ImageView \<Rightarrow> nat \<Rightarrow> Coord" where
  "row_major v k =
     coord_add (view_offset v) (int k mod view_width v, int k div view_width v)"

text \<open>
  The window of the box filter. After \<open>k\<close> iterations of the inner loop over a line of
  \<open>n\<close> pixels, with window size \<open>w\<close>, the accumulator holds the pixels \<open>win w n k\<close>. The
  value written for position \<open>p\<close> is the one of iteration \<open>p + w div 2\<close>: the mean over
  \<open>box_window w n p\<close>, positions \<open>p + w div 2 + 1 - w\<close> (not below 0) to \<open>p + w div 2\<close> (below
  \<open>n\<close>). The subtraction of natural numbers stops at 0, which is the clipping at the border.
\<close>

definition win :: "nat \<Rightarrow> nat \<Rightarrow> nat \<Rightarrow> nat set" where
  "win w n k = {k - w ..< min k n}"

definition box_window :: "nat \<Rightarrow> nat \<Rightarrow> nat \<Rightarrow> nat set" where
  "box_window w n p = {p + w div 2 + 1 - w ..< min (p + w div 2 + 1) n}"

definition window_mean :: "nat \<Rightarrow> nat \<Rightarrow> (nat \<Rightarrow> real) \<Rightarrow> nat \<Rightarrow> real" where
  "window_mean w n px p = (\<Sum>j \<in> box_window w n p. px j) / real (card (box_window w n p))"

text \<open>The lines of a pass: rows for the horizontal pass, columns for the vertical one.
  \<open>line_index vertical W i k\<close> is the place in the pixel vector of element \<open>k\<close> of line
  \<open>i\<close>, for an image of width \<open>W\<close>.\<close>

definition line_index :: "bool \<Rightarrow> nat \<Rightarrow> nat \<Rightarrow> nat \<Rightarrow> nat" where
  "line_index vertical W i k = (if vertical then k * W + i else i * W + k)"

definition outer_count :: "bool \<Rightarrow> nat \<Rightarrow> nat \<Rightarrow> nat" where
  "outer_count vertical W H = (if vertical then W else H)"

definition inner_count :: "bool \<Rightarrow> nat \<Rightarrow> nat \<Rightarrow> nat" where
  "inner_count vertical W H = (if vertical then H else W)"

definition line_mean :: "bool \<Rightarrow> nat \<Rightarrow> nat \<Rightarrow> nat \<Rightarrow> real list \<Rightarrow> nat \<Rightarrow> nat \<Rightarrow> real" where
  "line_mean vertical w W H rs i k =
     window_mean w (inner_count vertical W H) (\<lambda>k'. rs ! line_index vertical W i k') k"

definition box_mean :: "nat \<Rightarrow> nat \<Rightarrow> nat \<Rightarrow> real list \<Rightarrow> nat \<Rightarrow> nat \<Rightarrow> real" where
  "box_mean w W H rs x y =
     window_mean w H (\<lambda>y'. window_mean w W (\<lambda>x'. rs ! (y' * W + x')) x) y"



text \<open>A finite float.\<close>

fun is_finite :: "flt \<Rightarrow> bool" where
  "is_finite (Fin a) = True"
| "is_finite PInf = False"
| "is_finite NInf = False"
| "is_finite NaN = False"

text \<open>
  An image with at least one pixel that holds its invariant: \<open>W\<close> columns, \<open>H\<close> rows and
  \<open>W * H\<close> pixels, a number that the type \<^verbatim>\<open>coord_int\<close> of the dimensions can hold (the
  constructors and the index of a pixel compute it in that type). \<open>image_coords W H\<close> are its
  coordinates in row-major order.
\<close>

definition proper_image :: "'p BaseImage \<Rightarrow> nat \<Rightarrow> nat \<Rightarrow> bool" where
  "proper_image img W H \<longleftrightarrow>
     0 < W \<and> 0 < H \<and> W * H < 2 ^ 31 \<and>
     m_width img = int W \<and> m_height img = int H \<and> length (m_data img) = W * H"

definition image_coords :: "nat \<Rightarrow> nat \<Rightarrow> Coord list" where
  "image_coords W H = map (\<lambda>k. (int (k mod W), int (k div W))) [0..<W * H]"

text \<open>
  The results of the image operations on images of equal dimensions, as values:
  \<open>zip_image op l r\<close> applies \<open>op\<close> pixel by pixel, \<open>channel f img\<close> is one colour channel,
  \<open>cov_image\<close> and \<open>cof_image\<close> are the results of \<open>covariance\<close> and \<open>cofactor\<close>,
  \<open>init_values\<close> are the members after the initialisers of the constructor of
  \<open>GuidedFilterValues\<close>, \<open>det_image\<close> is the determinant and \<open>divided\<close> the members after the
  six divisions.
\<close>

definition zip_image :: "('p \<Rightarrow> 'p \<Rightarrow> 'p) \<Rightarrow> 'p BaseImage \<Rightarrow> 'p BaseImage \<Rightarrow> 'p BaseImage" where
  "zip_image op l r =
     \<lparr>m_width = m_width l, m_height = m_height l, m_data = map2 op (m_data l) (m_data r)\<rparr>"

definition channel :: "(Pixel \<Rightarrow> flt) \<Rightarrow> ImageRgb \<Rightarrow> ImageGrey" where
  "channel f img = \<lparr>m_width = m_width img, m_height = m_height img, m_data = map f (m_data img)\<rparr>"

definition cov_image :: "nat \<Rightarrow> ImageGrey \<Rightarrow> ImageGrey \<Rightarrow> ImageGrey \<Rightarrow> ImageGrey \<Rightarrow> ImageGrey" where
  "cov_image rad a b ma mb =
     zip_image fsub (boxFilter (zip_image fmul a b) rad) (zip_image fmul ma mb)"

definition cof_image :: "ImageGrey \<Rightarrow> ImageGrey \<Rightarrow> ImageGrey \<Rightarrow> ImageGrey \<Rightarrow> ImageGrey" where
  "cof_image a b c d = zip_image fsub (zip_image fmul a b) (zip_image fmul c d)"

definition init_values :: "ImageRgb \<Rightarrow> nat \<Rightarrow> flt \<Rightarrow> GuidedFilterValues" where
  "init_values guide r eps =
     (let rad = r * 2 + 1;
          Ir = channel red guide; Ig = channel green guide; Ib = channel blue guide;
          mr = boxFilter Ir rad; mg = boxFilter Ig rad; mb = boxFilter Ib rad;
          vrr = image_add_scalar (cov_image rad Ir Ir mr mr) eps;
          vrg = cov_image rad Ir Ig mr mg;
          vrb = cov_image rad Ir Ib mr mb;
          vgg = image_add_scalar (cov_image rad Ig Ig mg mg) eps;
          vgb = cov_image rad Ig Ib mg mb;
          vbb = image_add_scalar (cov_image rad Ib Ib mb mb) eps
      in \<lparr>radius = rad, I_r = Ir, I_g = Ig, I_b = Ib,
           mean_I_r = mr, mean_I_g = mg, mean_I_b = mb,
           var_I_rr = vrr, var_I_rg = vrg, var_I_rb = vrb,
           var_I_gg = vgg, var_I_gb = vgb, var_I_bb = vbb,
           invrr = cof_image vgg vbb vgb vgb,
           invrg = cof_image vgb vrb vrg vbb,
           invrb = cof_image vrg vgb vgg vrb,
           invgg = cof_image vrr vbb vrb vrb,
           invgb = cof_image vrb vrg vrr vgb,
           invbb = cof_image vrr vgg vrg vrg\<rparr>)"

definition det_image :: "GuidedFilterValues \<Rightarrow> ImageGrey" where
  "det_image v =
     zip_image fadd
       (zip_image fadd (zip_image fmul (invrr v) (var_I_rr v))
                       (zip_image fmul (invrg v) (var_I_rg v)))
       (zip_image fmul (invrb v) (var_I_rb v))"

definition divided :: "GuidedFilterValues \<Rightarrow> ImageGrey \<Rightarrow> GuidedFilterValues" where
  "divided v d =
     v\<lparr>invrr := zip_image fdiv (invrr v) d, invrg := zip_image fdiv (invrg v) d,
       invrb := zip_image fdiv (invrb v) d, invgg := zip_image fdiv (invgg v) d,
       invgb := zip_image fdiv (invgb v) d, invbb := zip_image fdiv (invbb v) d\<rparr>"

definition proper_values :: "GuidedFilterValues \<Rightarrow> nat \<Rightarrow> nat \<Rightarrow> bool" where
  "proper_values v W H \<longleftrightarrow>
     proper_image (var_I_rr v) W H \<and> proper_image (var_I_rg v) W H \<and>
     proper_image (var_I_rb v) W H \<and>
     proper_image (invrr v) W H \<and> proper_image (invrg v) W H \<and> proper_image (invrb v) W H \<and>
     proper_image (invgg v) W H \<and> proper_image (invgb v) W H \<and> proper_image (invbb v) W H"

text \<open>
  The depth map. \<open>window_coords view coord k\<close> are the coordinates that the loop over
  \<^verbatim>\<open>view.centredSubView(coord, k, k)\<close> produces. A \<open>unit_value\<close> is a finite float of
  \<open>[0, 1]\<close>, and \<open>fin_val\<close> reads the real number of a finite float. \<open>grey v\<close> is the pixel
  with the three channels \<open>v\<close>.
\<close>

definition window_coords :: "ImageView \<Rightarrow> Coord \<Rightarrow> nat \<Rightarrow> Coord list" where
  "window_coords view coord k =
     map (row_major (centredSubView view coord (int k) (int k))) [0..<k * k]"

definition unit_value :: "flt \<Rightarrow> bool" where
  "unit_value v \<longleftrightarrow> (\<exists>a. v = Fin a \<and> 0 \<le> a \<and> a \<le> 1)"

fun fin_val :: "flt \<Rightarrow> real" where
  "fin_val (Fin a) = a"
| "fin_val PInf = 0"
| "fin_val NInf = 0"
| "fin_val NaN = 0"

definition grey :: "real \<Rightarrow> Pixel" where
  "grey v = Pixel (Fin v) (Fin v) (Fin v)"

text \<open>
  The minimum filter as the specification words it: the minimum of the depths \<open>ds\<close>
  (row-major, width \<open>W\<close>) over the window of side \<open>k\<close> around \<open>(x, y)\<close>, clipped at the borders
  as the windows of the box filter are.
\<close>

definition min_filter_spec :: "nat \<Rightarrow> nat \<Rightarrow> nat \<Rightarrow> real list \<Rightarrow> nat \<Rightarrow> nat \<Rightarrow> real" where
  "min_filter_spec k W H ds x y =
     Min ((\<lambda>(x', y'). ds ! (y' * W + x')) ` (box_window k W x \<times> box_window k H y))"

section \<open>Narrowing\<close>

lemma coord_int_id: "- (2 ^ 31) \<le> x \<Longrightarrow> x < 2 ^ 31 \<Longrightarrow> coord_int x = x"
  by (simp add: coord_int_def)

lemma coord_int_nat: "n < 2 ^ 31 \<Longrightarrow> coord_int (int n) = int n"
  by (rule coord_int_id) simp_all

lemma size_t_id: "0 \<le> x \<Longrightarrow> x < 2 ^ 31 \<Longrightarrow> size_t x = nat x"
  by (simp add: size_t_def)

lemma size_t_coord_int: "0 \<le> x \<Longrightarrow> x < 2 ^ 31 \<Longrightarrow> size_t (coord_int x) = nat x"
  by (simp add: coord_int_id size_t_id)

lemma int_product_bound:
  assumes "W * H < 2 ^ 31"
  shows "int W * int H < 2 ^ 31"
proof -
  from assms have "int (W * H) < int (2 ^ 31)" by (simp only: of_nat_less_iff)
  then show ?thesis by simp
qed

lemma coord_int_product:
  assumes "W * H < 2 ^ 31"
  shows "coord_int (int W * int H) = int W * int H"
    and "size_t (coord_int (int W * int H)) = W * H"
    and "size_t (int W * int H) = W * H"
proof -
  have b: "0 \<le> int W * int H" "int W * int H < 2 ^ 31"
    using int_product_bound [OF assms] by simp_all
  have "- (2 ^ 31) \<le> int W * int H" by (rule order_trans [OF _ b(1)]) simp
  then show "coord_int (int W * int H) = int W * int H" using b(2) by (rule coord_int_id)
  have "nat (int W * int H) = W * H" by (simp add: nat_mult_distrib)
  then show "size_t (coord_int (int W * int H)) = W * H" and "size_t (int W * int H) = W * H"
    using b by (simp_all only: size_t_coord_int size_t_id)
qed

lemma boxFilter_narrow:
  "r < 2 ^ 31 \<Longrightarrow> boxFilter img r = boxFilterPass True (boxFilterPass False img (int r)) (int r)"
  by (simp add: boxFilter_def coord_int_nat Let_def)

section \<open>Lists updated in a loop\<close>

lemma fold_update_data:
  "n \<le> length (m_data out) \<Longrightarrow>
   m_data (fold (\<lambda>i out. out\<lparr>m_data := (m_data out)[i := f i]\<rparr>) [0..<n] out)
     = map f [0..<n] @ drop n (m_data out)"
proof (induction n)
  case 0
  show ?case by simp
next
  case (Suc n)
  then have n: "n < length (m_data out)" by simp
  have "(map f [0..<n] @ drop n (m_data out))[n := f n]
      = map f [0..<n] @ (drop n (m_data out))[0 := f n]"
    by (simp add: list_update_append)
  also have "(drop n (m_data out))[0 := f n] = f n # drop (Suc n) (m_data out)"
    using n by (metis Cons_nth_drop_Suc list_update_code(2))
  finally show ?case using Suc n by simp
qed

lemma fold_update_width:
  "m_width (fold (\<lambda>i out. out\<lparr>m_data := g i out\<rparr>) xs out) = m_width out"
  by (induction xs arbitrary: out) auto

lemma fold_update_height:
  "m_height (fold (\<lambda>i out. out\<lparr>m_data := g i out\<rparr>) xs out) = m_height out"
  by (induction xs arbitrary: out) auto

lemma fold_assign_data:
  "n \<le> length (m_data l) \<Longrightarrow>
   m_data (fold (\<lambda>i l'. l'\<lparr>m_data := (m_data l')[i := op (m_data l' ! i) (rs ! i)]\<rparr>) [0..<n] l)
     = map (\<lambda>i. op (m_data l ! i) (rs ! i)) [0..<n] @ drop n (m_data l)"
proof (induction n)
  case 0
  show ?case by simp
next
  case (Suc n)
  then have n: "n < length (m_data l)" by simp
  let ?g = "\<lambda>i. op (m_data l ! i) (rs ! i)"
  have "(map ?g [0..<n] @ drop n (m_data l))[n := ?g n]
      = map ?g [0..<n] @ (drop n (m_data l))[0 := ?g n]"
    by (simp add: list_update_append)
  also have "(drop n (m_data l))[0 := ?g n] = ?g n # drop (Suc n) (m_data l)"
    using n by (metis Cons_nth_drop_Suc list_update_code(2))
  finally show ?case using Suc n by (simp add: nth_append)
qed

lemma map2_nth:
  "length xs = length ys \<Longrightarrow> map (\<lambda>i. op (xs ! i) (ys ! i)) [0..<length xs] = map2 op xs ys"
  by (auto intro!: nth_equalityI)

lemma image_eqI:
  "m_width a = m_width b \<Longrightarrow> m_height a = m_height b \<Longrightarrow> m_data a = m_data b \<Longrightarrow>
   (a :: 'p BaseImage) = b"
  by simp

section \<open>Iterating over a view\<close>

lemma c_div_pos: "0 \<le> a \<Longrightarrow> 0 < b \<Longrightarrow> c_div a b = a div b"
  by (cases "a = 0") (simp_all add: c_div_def)

lemma c_mod_pos: "0 \<le> a \<Longrightarrow> 0 < b \<Longrightarrow> c_mod a b = a mod b"
  by (simp add: c_mod_def c_div_pos minus_mult_div_eq_mod)

lemma div_succ_int:
  fixes k W :: int
  assumes "0 \<le> k" "0 < W"
  shows "(1 + k) div W = k div W + (k mod W + 1) div W"
    and "(1 + k) mod W = (k mod W + 1) mod W"
proof -
  show "(1 + k) mod W = (k mod W + 1) mod W"
    by (metis add.commute mod_add_left_eq)
  have "(k mod W + 1 + (k div W) * W) div W = (k mod W + 1) div W + k div W"
    using assms by (subst div_mult_self1) simp_all
  moreover have "k mod W + 1 + (k div W) * W = 1 + k" by simp
  ultimately show "(1 + k) div W = k div W + (k mod W + 1) div W"
    by (simp only: add.commute)
qed

lemma div_lt_int:
  fixes k W H :: int
  assumes "0 < W" "k < W * H"
  shows "k div W < H"
proof (rule ccontr)
  assume "\<not> k div W < H"
  then have "W * H \<le> W * (k div W)" using assms(1) by (simp add: mult_left_mono)
  also have "\<dots> = k - k mod W" by (simp add: minus_mod_eq_mult_div)
  also have "\<dots> \<le> k" using assms(1) by simp
  finally show False using assms(2) by simp
qed

lemma advance_row_major:
  assumes "0 < view_width v"
  shows "advance v (int k mod view_width v, int k div view_width v)
           = (int (Suc k) mod view_width v, int (Suc k) div view_width v)"
proof -
  let ?W = "view_width v"
  have a: "0 \<le> int k mod ?W + 1" using assms by (simp add: add_nonneg_nonneg)
  have "int (Suc k) = int k + 1" by simp
  then show ?thesis
    using div_succ_int [of "int k" ?W] assms a
    by (simp add: advance_def Let_def c_div_pos c_mod_pos)
qed

lemma iterate_row_major:
  assumes W: "0 < view_width v" and H: "0 \<le> view_height v"
    and k: "k \<le> nat (view_width v * view_height v)"
  shows "iterate v (int k mod view_width v, int k div view_width v) acc
           = Some (Inr (rev acc @ map (row_major v) [k..<nat (view_width v * view_height v)]))"
  using k
proof (induction "nat (view_width v * view_height v) - k" arbitrary: k acc)
  case 0
  let ?W = "view_width v" and ?H = "view_height v"
  from 0 have "k = nat (?W * ?H)" by simp
  then have "int k = ?W * ?H" using W H by simp
  then have "(int k mod ?W, int k div ?W) = (0, ?H)" using W by simp
  then show ?case using \<open>k = nat (?W * ?H)\<close> by (subst iterate.simps) simp
next
  case (Suc d)
  let ?W = "view_width v" and ?H = "view_height v"
  from Suc have lt: "k < nat (?W * ?H)" by simp
  then have "int k < ?W * ?H" by simp
  then have "int k div ?W < ?H" using W by (rule div_lt_int [rotated])
  then have ne: "(int k mod ?W, int k div ?W) \<noteq> (0, ?H)" by simp
  have d: "d = nat (?W * ?H) - Suc k" using Suc by simp
  have sk: "Suc k \<le> nat (?W * ?H)" using lt by simp
  have "iterate v (int k mod ?W, int k div ?W) acc
          = iterate v (int (Suc k) mod ?W, int (Suc k) div ?W) (row_major v k # acc)"
    using ne W by (subst iterate.simps) (auto simp: advance_row_major [OF W] row_major_def)
  also have "\<dots> = Some (Inr (rev (row_major v k # acc) @ map (row_major v) [Suc k..<nat (?W * ?H)]))"
    by (rule Suc(1) [OF d sk])
  finally show ?case using lt by (simp add: upt_conv_Cons)
qed

lemma forView_row_major:
  assumes "0 < view_width v" "0 \<le> view_height v"
  shows "forView v = Inr (map (row_major v) [0..<nat (view_width v * view_height v)])"
  using iterate_row_major [OF assms, of 0 "[]"] by (simp add: forView_def)

lemma forView_empty: "view_height v = 0 \<Longrightarrow> forView v = Inr []"
  by (simp add: forView_def iterate.simps)

lemma forView_zero_width:
  "view_width v = 0 \<Longrightarrow> view_height v \<noteq> 0 \<Longrightarrow> forView v = Inl DivisionByZero"
  by (simp add: forView_def iterate.simps)

section \<open>Element-wise operators and the size check\<close>

lemma binaryOp_ok:
  assumes "wf_image l" "wf_image r" "m_width l = m_width r" "m_height l = m_height r"
  shows "binaryOp l r op =
           Inr \<lparr>m_width = m_width l, m_height = m_height l,
                m_data = map2 op (m_data l) (m_data r)\<rparr>"
proof -
  let ?n = "length (m_data l)"
  have len: "length (m_data r) = ?n" "?n = nat (m_width l * m_height l)"
    using assms by (simp_all add: wf_image_def)
  have b: "0 \<le> m_width l * m_height l" "m_width l * m_height l < 2 ^ 31"
    using assms(1) by (simp_all add: wf_image_def)
  have nn: "\<not> coord_int (m_width l * m_height l) < 0"
    and sz: "size_t (coord_int (m_width l * m_height l)) = nat (m_width l * m_height l)"
    using b by (simp_all add: coord_int_id size_t_id)
  let ?out = "\<lparr>m_width = m_width l, m_height = m_height l,
                m_data = replicate (nat (m_width l * m_height l)) (0::'a)\<rparr>"
  let ?res = "fold (\<lambda>i out. out\<lparr>m_data := (m_data out)[i := op (m_data l ! i) (m_data r ! i)]\<rparr>)
                [0..<?n] ?out"
  have "m_data ?res = map (\<lambda>i. op (m_data l ! i) (m_data r ! i)) [0..<?n] @ drop ?n (m_data ?out)"
    by (rule fold_update_data) (simp add: len)
  then have d: "m_data ?res = map2 op (m_data l) (m_data r)"
    using len map2_nth [of "m_data l" "m_data r" op] by simp
  have res: "?res = \<lparr>m_width = m_width l, m_height = m_height l,
                m_data = map2 op (m_data l) (m_data r)\<rparr>"
    by (rule image_eqI) (simp_all add: fold_update_width fold_update_height d)
  have dims: "BaseImage_dims (m_width l) (m_height l) = Inr ?out"
    using nn sz by (simp add: BaseImage_dims_def)
  show ?thesis
    unfolding binaryOp_def checkSizes_def dims using assms(3,4) res by simp
qed

lemma binaryOp_error:
  "binaryOp l r op = Inl ImageError \<longleftrightarrow> m_width l \<noteq> m_width r \<or> m_height l \<noteq> m_height r"
  by (auto simp: binaryOp_def checkSizes_def BaseImage_dims_def split: sum.splits if_splits)

lemma binaryAssignmentOp_ok:
  assumes "wf_image l" "wf_image r" "m_width l = m_width r" "m_height l = m_height r"
  shows "binaryAssignmentOp l r op = Inr (l\<lparr>m_data := map2 op (m_data l) (m_data r)\<rparr>)"
proof -
  let ?n = "length (m_data l)"
  have len: "length (m_data r) = ?n"
    using assms by (simp add: wf_image_def)
  let ?res = "fold (\<lambda>i l'. l'\<lparr>m_data := (m_data l')[i := op (m_data l' ! i) (m_data r ! i)]\<rparr>)
                [0..<?n] l"
  have "m_data ?res = map (\<lambda>i. op (m_data l ! i) (m_data r ! i)) [0..<?n] @ drop ?n (m_data l)"
    by (rule fold_assign_data) simp
  then have d: "m_data ?res = map2 op (m_data l) (m_data r)"
    using len map2_nth [of "m_data l" "m_data r" op] by simp
  have "?res = l\<lparr>m_data := map2 op (m_data l) (m_data r)\<rparr>"
    by (rule image_eqI) (simp_all add: fold_update_width fold_update_height d)
  then show ?thesis
    using assms(3,4) by (simp add: binaryAssignmentOp_def checkSizes_def)
qed

lemma binaryAssignmentOp_error:
  "binaryAssignmentOp l r op = Inl ImageError \<longleftrightarrow> m_width l \<noteq> m_width r \<or> m_height l \<noteq> m_height r"
  by (auto simp: binaryAssignmentOp_def checkSizes_def split: sum.splits if_splits)

text \<open>
  Claim C8. Each of the operators \<^verbatim>\<open>+ - * /\<close> between two images, and each of
  \<^verbatim>\<open>+= -= *= /=\<close>, fails with the size-mismatch error \<open>ImageError\<close> if and only if the widths
  differ or the heights differ. When the dimensions are equal, on images that hold their
  invariant, it succeeds and returns the image of the same dimensions whose pixel \<open>i\<close> is
  the sum, the difference, the product or the quotient of the pixels \<open>i\<close> of the operands.
  The same holds of the two helpers \<open>binaryOp\<close> and \<open>binaryAssignmentOp\<close> behind the
  operators, for any operation \<open>op\<close> on pixels of any type.
\<close>

theorem operators_size_mismatch_iff:
  "(image_add l r = Inl ImageError \<longleftrightarrow> m_width l \<noteq> m_width r \<or> m_height l \<noteq> m_height r) \<and>
   (image_sub l r = Inl ImageError \<longleftrightarrow> m_width l \<noteq> m_width r \<or> m_height l \<noteq> m_height r) \<and>
   (image_mul l r = Inl ImageError \<longleftrightarrow> m_width l \<noteq> m_width r \<or> m_height l \<noteq> m_height r) \<and>
   (image_div l r = Inl ImageError \<longleftrightarrow> m_width l \<noteq> m_width r \<or> m_height l \<noteq> m_height r) \<and>
   (image_add_assign l r = Inl ImageError
      \<longleftrightarrow> m_width l \<noteq> m_width r \<or> m_height l \<noteq> m_height r) \<and>
   (image_sub_assign l r = Inl ImageError
      \<longleftrightarrow> m_width l \<noteq> m_width r \<or> m_height l \<noteq> m_height r) \<and>
   (image_mul_assign l r = Inl ImageError
      \<longleftrightarrow> m_width l \<noteq> m_width r \<or> m_height l \<noteq> m_height r) \<and>
   (image_div_assign l r = Inl ImageError
      \<longleftrightarrow> m_width l \<noteq> m_width r \<or> m_height l \<noteq> m_height r) \<and>
   (wf_image l \<and> wf_image r \<and> m_width l = m_width r \<and> m_height l = m_height r \<longrightarrow>
      image_add l r = Inr \<lparr>m_width = m_width l, m_height = m_height l,
                            m_data = map2 fadd (m_data l) (m_data r)\<rparr> \<and>
      image_sub l r = Inr \<lparr>m_width = m_width l, m_height = m_height l,
                            m_data = map2 fsub (m_data l) (m_data r)\<rparr> \<and>
      image_mul l r = Inr \<lparr>m_width = m_width l, m_height = m_height l,
                            m_data = map2 fmul (m_data l) (m_data r)\<rparr> \<and>
      image_div l r = Inr \<lparr>m_width = m_width l, m_height = m_height l,
                            m_data = map2 fdiv (m_data l) (m_data r)\<rparr> \<and>
      image_add_assign l r = Inr (l\<lparr>m_data := map2 fadd (m_data l) (m_data r)\<rparr>) \<and>
      image_sub_assign l r = Inr (l\<lparr>m_data := map2 fsub (m_data l) (m_data r)\<rparr>) \<and>
      image_mul_assign l r = Inr (l\<lparr>m_data := map2 fmul (m_data l) (m_data r)\<rparr>) \<and>
      image_div_assign l r = Inr (l\<lparr>m_data := map2 fdiv (m_data l) (m_data r)\<rparr>)) \<and>
   (binaryOp a b op = Inl ImageError \<longleftrightarrow> m_width a \<noteq> m_width b \<or> m_height a \<noteq> m_height b) \<and>
   (binaryAssignmentOp a b op = Inl ImageError
      \<longleftrightarrow> m_width a \<noteq> m_width b \<or> m_height a \<noteq> m_height b) \<and>
   (wf_image a \<and> wf_image b \<and> m_width a = m_width b \<and> m_height a = m_height b \<longrightarrow>
      binaryOp a b op =
        Inr \<lparr>m_width = m_width a, m_height = m_height a,
             m_data = map2 op (m_data a) (m_data b)\<rparr> \<and>
      binaryAssignmentOp a b op = Inr (a\<lparr>m_data := map2 op (m_data a) (m_data b)\<rparr>))"
proof -
  have e: "image_add l r = Inl ImageError \<longleftrightarrow> m_width l \<noteq> m_width r \<or> m_height l \<noteq> m_height r"
    "image_sub l r = Inl ImageError \<longleftrightarrow> m_width l \<noteq> m_width r \<or> m_height l \<noteq> m_height r"
    "image_mul l r = Inl ImageError \<longleftrightarrow> m_width l \<noteq> m_width r \<or> m_height l \<noteq> m_height r"
    "image_div l r = Inl ImageError \<longleftrightarrow> m_width l \<noteq> m_width r \<or> m_height l \<noteq> m_height r"
    unfolding image_add_def image_sub_def image_mul_def image_div_def
    by (rule binaryOp_error)+
  have ea: "image_add_assign l r = Inl ImageError
              \<longleftrightarrow> m_width l \<noteq> m_width r \<or> m_height l \<noteq> m_height r"
    "image_sub_assign l r = Inl ImageError \<longleftrightarrow> m_width l \<noteq> m_width r \<or> m_height l \<noteq> m_height r"
    "image_mul_assign l r = Inl ImageError \<longleftrightarrow> m_width l \<noteq> m_width r \<or> m_height l \<noteq> m_height r"
    "image_div_assign l r = Inl ImageError \<longleftrightarrow> m_width l \<noteq> m_width r \<or> m_height l \<noteq> m_height r"
    unfolding image_add_assign_def image_sub_assign_def image_mul_assign_def image_div_assign_def
    by (rule binaryAssignmentOp_error)+
  have ok: "image_add l r = Inr \<lparr>m_width = m_width l, m_height = m_height l,
                                  m_data = map2 fadd (m_data l) (m_data r)\<rparr> \<and>
      image_sub l r = Inr \<lparr>m_width = m_width l, m_height = m_height l,
                            m_data = map2 fsub (m_data l) (m_data r)\<rparr> \<and>
      image_mul l r = Inr \<lparr>m_width = m_width l, m_height = m_height l,
                            m_data = map2 fmul (m_data l) (m_data r)\<rparr> \<and>
      image_div l r = Inr \<lparr>m_width = m_width l, m_height = m_height l,
                            m_data = map2 fdiv (m_data l) (m_data r)\<rparr> \<and>
      image_add_assign l r = Inr (l\<lparr>m_data := map2 fadd (m_data l) (m_data r)\<rparr>) \<and>
      image_sub_assign l r = Inr (l\<lparr>m_data := map2 fsub (m_data l) (m_data r)\<rparr>) \<and>
      image_mul_assign l r = Inr (l\<lparr>m_data := map2 fmul (m_data l) (m_data r)\<rparr>) \<and>
      image_div_assign l r = Inr (l\<lparr>m_data := map2 fdiv (m_data l) (m_data r)\<rparr>)"
    if "wf_image l" "wf_image r" "m_width l = m_width r" "m_height l = m_height r"
    unfolding image_add_def image_sub_def image_mul_def image_div_def
      image_add_assign_def image_sub_assign_def image_mul_assign_def image_div_assign_def
    by (simp only: binaryOp_ok [OF that] binaryAssignmentOp_ok [OF that] simp_thms)
  show ?thesis
    using e ea ok binaryOp_error [of a b op] binaryAssignmentOp_error [of a b op]
      binaryOp_ok [of a b op] binaryAssignmentOp_ok [of a b op]
    by blast
qed

theorem operators_size_mismatch_iff_witness:
  "image_add \<lparr>m_width = 2, m_height = 1, m_data = [Fin 1, Fin 2]\<rparr>
             \<lparr>m_width = 2, m_height = 1, m_data = [Fin 3, Fin 4]\<rparr>
     = Inr \<lparr>m_width = 2, m_height = 1, m_data = [Fin 4, Fin 6]\<rparr> \<and>
   image_sub \<lparr>m_width = 2, m_height = 1, m_data = [Fin 1, Fin 2]\<rparr>
             \<lparr>m_width = 2, m_height = 1, m_data = [Fin 3, Fin 4]\<rparr>
     = Inr \<lparr>m_width = 2, m_height = 1, m_data = [Fin (- 2), Fin (- 2)]\<rparr> \<and>
   image_mul \<lparr>m_width = 2, m_height = 1, m_data = [Fin 1, Fin 2]\<rparr>
             \<lparr>m_width = 2, m_height = 1, m_data = [Fin 3, Fin 4]\<rparr>
     = Inr \<lparr>m_width = 2, m_height = 1, m_data = [Fin 3, Fin 8]\<rparr> \<and>
   image_div \<lparr>m_width = 2, m_height = 1, m_data = [Fin 1, Fin 2]\<rparr>
             \<lparr>m_width = 2, m_height = 1, m_data = [Fin 3, Fin 4]\<rparr>
     = Inr \<lparr>m_width = 2, m_height = 1, m_data = [Fin (1 / 3), Fin (1 / 2)]\<rparr> \<and>
   image_div \<lparr>m_width = 2, m_height = 1, m_data = [Fin 1, Fin 2]\<rparr>
             \<lparr>m_width = 1, m_height = 2, m_data = [Fin 3, Fin 4]\<rparr>
     = Inl ImageError"
  using operators_size_mismatch_iff
          [of "\<lparr>m_width = 2, m_height = 1, m_data = [Fin 1, Fin 2]\<rparr>"
              "\<lparr>m_width = 2, m_height = 1, m_data = [Fin 3, Fin 4]\<rparr>"
              "\<lparr>m_width = 2, m_height = 1, m_data = [Fin 1, Fin 2]\<rparr>"
              "\<lparr>m_width = 2, m_height = 1, m_data = [Fin 3, Fin 4]\<rparr>" fadd]
        operators_size_mismatch_iff
          [of "\<lparr>m_width = 2, m_height = 1, m_data = [Fin 1, Fin 2]\<rparr>"
              "\<lparr>m_width = 1, m_height = 2, m_data = [Fin 3, Fin 4]\<rparr>"
              "\<lparr>m_width = 2, m_height = 1, m_data = [Fin 1, Fin 2]\<rparr>"
              "\<lparr>m_width = 1, m_height = 2, m_data = [Fin 3, Fin 4]\<rparr>" fadd]
  by (simp add: wf_image_def fsub_def)
section \<open>Views\<close>

text \<open>
  Claim C9. The claim is that every view is clamped to its parent. The program does not
  do so: on a 4x4 image, \<^verbatim>\<open>getView({-2, 0}, 6, 4)\<close> is a view of width 6 at offset (0, 0),
  two columns wider than the image; \<^verbatim>\<open>getView({5, 0}, 2, 2)\<close>, a rectangle outside the image,
  is a view of width 0 and height 2, and iterating over it divides by zero in
  \<^verbatim>\<open>operator++\<close> instead of producing no coordinate; and \<^verbatim>\<open>subView\<close> and
  \<^verbatim>\<open>centredSubView\<close> keep the extents they are given.
\<close>

theorem views_not_clamped:
  "getView_at \<lparr>m_width = 4, m_height = 4, m_data = replicate 16 (Fin 0)\<rparr> (- 2, 0) 6 4
     = \<lparr>view_offset = (0, 0), view_width = 6, view_height = 4\<rparr> \<and>
   getView_at \<lparr>m_width = 4, m_height = 4, m_data = replicate 16 (Fin 0)\<rparr> (5, 0) 2 2
     = \<lparr>view_offset = (5, 0), view_width = 0, view_height = 2\<rparr> \<and>
   forView (getView_at \<lparr>m_width = 4, m_height = 4, m_data = replicate 16 (Fin 0)\<rparr> (5, 0) 2 2)
     = Inl DivisionByZero \<and>
   subView (getView \<lparr>m_width = 4, m_height = 4, m_data = replicate 16 (Fin 0)\<rparr>) (2, 2) 4 4
     = \<lparr>view_offset = (2, 2), view_width = 4, view_height = 4\<rparr> \<and>
   centredSubView (getView \<lparr>m_width = 4, m_height = 4, m_data = replicate 16 (Fin 0)\<rparr>) (0, 0) 3 3
     = \<lparr>view_offset = (0, 0), view_width = 3, view_height = 3\<rparr>"
  by (simp add: getView_at_def getView_def ImageView_def subView_def centredSubView_def
      clamp_def coord_add_def coord_sub_def c_div_def forView_zero_width)

section \<open>The box filter\<close>

subsection \<open>The sliding window\<close>

lemma c_div_nat2: "c_div (int w) 2 = int (w div 2)"
  by (simp add: c_div_pos zdiv_int)

lemma box_window_win: "box_window w n p = win w n (Suc (p + w div 2))"
  by (simp add: box_window_def win_def)

lemma card_win: "card (win w n k) = min k n - (k - w)"
  by (simp add: win_def)

lemma win_step_sum:
  fixes px :: "nat \<Rightarrow> real"
  assumes w: "1 \<le> w" and k: "k < n + w div 2"
  shows "(\<Sum>j \<in> win w n (Suc k). px j)
           = (\<Sum>j \<in> win w n k. px j) - (if k < w then 0 else px (k - w)) + (if k < n then px k else 0)"
proof -
  have hw: "w div 2 < w" using w by simp
  have kw: "\<not> k < w \<Longrightarrow> k - w < n" using hw k by arith
  show ?thesis
  proof (cases "k < w"; cases "k < n")
    assume a: "k < w" "k < n"
    then show ?thesis by (simp add: win_def min_def)
  next
    assume a: "k < w" "\<not> k < n"
    then show ?thesis by (simp add: win_def min_def)
  next
    assume a: "\<not> k < w" "k < n"
    then have lo: "Suc k - w = Suc (k - w)" and lt: "k - w < k" using w by simp_all
    have "sum px {k - w..<k} = px (k - w) + sum px {Suc (k - w)..<k}"
      using lt by (rule sum.atLeast_Suc_lessThan)
    moreover have "sum px {Suc (k - w)..<Suc k} = sum px {Suc (k - w)..<k} + px k"
      using lt by (simp add: sum.atLeastLessThan_Suc)
    ultimately show ?thesis using a lo by (simp add: win_def min_def)
  next
    assume a: "\<not> k < w" "\<not> k < n"
    then have lo: "Suc k - w = Suc (k - w)" using w by simp
    have "sum px {k - w..<n} = px (k - w) + sum px {Suc (k - w)..<n}"
      using kw [OF a(1)] by (rule sum.atLeast_Suc_lessThan)
    moreover have "min k n = n" "min (Suc k) n = n" using a by simp_all
    ultimately show ?thesis using a lo by (simp add: win_def)
  qed
qed

lemma win_step_card:
  assumes w: "1 \<le> w" and k: "k < n + w div 2"
  shows "int (card (win w n (Suc k)))
           = int (card (win w n k)) + (if k < w then 1 else 0) - (if k < n then 0 else 1)"
proof -
  have hw: "w div 2 < w" using w by simp
  have kw: "\<not> k < w \<Longrightarrow> k - w < n" using hw k by arith
  show ?thesis using w kw by (auto simp: card_win min_def not_less)
qed

lemma win_nonempty:
  assumes w: "1 \<le> w" and k: "k < n + w div 2" and h: "w div 2 \<le> k"
  shows "0 < card (win w n (Suc k))"
proof -
  have "w div 2 < w" using w by simp
  then have "Suc k - w < n" using k h by arith
  moreover have "Suc k - w < Suc k" using w by simp
  ultimately show ?thesis by (simp add: card_win)
qed

lemma fsub_Fin [simp]: "fsub (Fin a) (Fin b) = Fin (a - b)"
  by (simp add: fsub_def)

lemma window_step_Fin:
  assumes line: "\<forall>j<n. line (int j) = Fin (px j)" and w: "1 \<le> w" and k: "k < n + w div 2"
  shows "window_step line (int w) (int n) (int k)
           (Fin (sum px (win w n k)), int (card (win w n k)), row)
         = (Fin (sum px (win w n (Suc k))), int (card (win w n (Suc k))),
            if w div 2 \<le> k
            then row[k - w div 2 := Fin (sum px (win w n (Suc k)) / real (card (win w n (Suc k))))]
            else row)"
proof -
  have hw: "w div 2 < w" using w by simp
  have kw: "\<not> k < w \<Longrightarrow> k - w < n" using hw k by arith
  let ?s = "sum px (win w n k)" and ?c = "int (card (win w n k))"
  let ?a1 = "if int k < int w then Fin ?s else fsub (Fin ?s) (line (int k - int w))"
  have a1: "?a1 = Fin (?s - (if k < w then 0 else px (k - w)))"
  proof (cases "k < w")
    case True
    then show ?thesis by simp
  next
    case False
    then have e: "int k - int w = int (k - w)" by simp
    have "line (int (k - w)) = Fin (px (k - w))" using line kw False by blast
    then have "line (int k - int w) = Fin (px (k - w))" by (simp only: e)
    then show ?thesis using False by simp
  qed
  let ?a2 = "if int k < int n then fadd ?a1 (line (int k)) else ?a1"
  have a2: "?a2 = Fin (sum px (win w n (Suc k)))"
    using line by (simp only: a1 win_step_sum [OF w k]) simp
  let ?w1 = "if int k < int w then ?c + 1 else ?c"
  let ?w2 = "if int k < int n then ?w1 else ?w1 - 1"
  have w2: "?w2 = int (card (win w n (Suc k)))"
    by (simp only: win_step_card [OF w k]) simp
  have idx: "nat (int k - int (w div 2)) = k - w div 2" by simp
  have "window_step line (int w) (int n) (int k) (Fin ?s, ?c, row)
          = (?a2, ?w2, if int (w div 2) \<le> int k
                       then row[nat (int k - int (w div 2)) := fdiv ?a2 (Fin (of_int ?w2))]
                       else row)"
    by (simp add: window_step_def Let_def c_div_nat2)
  also have "\<dots> = (Fin (sum px (win w n (Suc k))), int (card (win w n (Suc k))),
            if w div 2 \<le> k
            then row[k - w div 2 := Fin (sum px (win w n (Suc k)) / real (card (win w n (Suc k))))]
            else row)"
  proof (cases "w div 2 \<le> k")
    case True
    then have "card (win w n (Suc k)) \<noteq> 0" using win_nonempty [OF w k] by simp
    then show ?thesis using True by (simp only: a2 w2 idx) simp
  next
    case False
    then show ?thesis by (simp only: a2 w2 idx) simp
  qed
  finally show ?thesis .
qed

lemma window_fold_inv:
  assumes line: "\<forall>j<n. line (int j) = Fin (px j)" and w: "1 \<le> w" and k: "k \<le> n + w div 2"
  shows "\<exists>row. fold (window_step line (int w) (int n)) (map int [0..<k]) (0, 0, row0)
                 = (Fin (sum px (win w n k)), int (card (win w n k)), row) \<and>
               length row = length row0 \<and>
               (\<forall>p < length row0. row ! p =
                  (if p + w div 2 < k then Fin (window_mean w n px p) else row0 ! p))"
  using k
proof (induction k)
  case 0
  show ?case by (simp add: win_def zero_flt_def)
next
  case (Suc k)
  then have k: "k < n + w div 2" by simp
  from Suc obtain row where
    f: "fold (window_step line (int w) (int n)) (map int [0..<k]) (0, 0, row0)
          = (Fin (sum px (win w n k)), int (card (win w n k)), row)"
    and l: "length row = length row0"
    and r: "\<forall>p < length row0. row ! p =
              (if p + w div 2 < k then Fin (window_mean w n px p) else row0 ! p)"
    by auto
  let ?m = "Fin (sum px (win w n (Suc k)) / real (card (win w n (Suc k))))"
  let ?row' = "if w div 2 \<le> k then row[k - w div 2 := ?m] else row"
  have "fold (window_step line (int w) (int n)) (map int [0..<Suc k]) (0, 0, row0)
          = window_step line (int w) (int n) (int k)
              (Fin (sum px (win w n k)), int (card (win w n k)), row)"
    by (simp add: f)
  also have "\<dots> = (Fin (sum px (win w n (Suc k))), int (card (win w n (Suc k))), ?row')"
    by (rule window_step_Fin [OF line w k])
  finally have f': "fold (window_step line (int w) (int n)) (map int [0..<Suc k]) (0, 0, row0)
          = (Fin (sum px (win w n (Suc k))), int (card (win w n (Suc k))), ?row')" .
  have l': "length ?row' = length row0" using l by simp
  have r': "\<forall>p < length row0. ?row' ! p =
              (if p + w div 2 < Suc k then Fin (window_mean w n px p) else row0 ! p)"
  proof (intro allI impI)
    fix p assume p: "p < length row0"
    show "?row' ! p = (if p + w div 2 < Suc k then Fin (window_mean w n px p) else row0 ! p)"
    proof (cases "w div 2 \<le> k \<and> p = k - w div 2")
      case True
      then have "box_window w n p = win w n (Suc k)" by (simp add: box_window_win)
      then show ?thesis using True p l by (simp add: window_mean_def)
    next
      case False
      then have "?row' ! p = row ! p" by auto
      moreover have "p + w div 2 < Suc k \<longleftrightarrow> p + w div 2 < k" using False by arith
      ultimately show ?thesis using r p by simp
    qed
  qed
  show ?case using f' l' r' by blast
qed

lemma window_loop_row:
  assumes line: "\<forall>j<n. line (int j) = Fin (px j)" and w: "1 \<le> w" and len: "length row0 = n"
  shows "snd (snd (window_loop line (int w) (int n) row0))
           = map (\<lambda>p. Fin (window_mean w n px p)) [0..<n]"
proof -
  have n: "nat (int n + c_div (int w) 2) = n + w div 2"
    by (simp add: c_div_nat2 nat_add_distrib)
  from window_fold_inv [OF line w order_refl, of row0] obtain row where
    f: "fold (window_step line (int w) (int n)) (map int [0..<n + w div 2]) (0, 0, row0)
          = (Fin (sum px (win w n (n + w div 2))), int (card (win w n (n + w div 2))), row)"
    and l: "length row = length row0"
    and r: "\<forall>p < length row0. row ! p =
              (if p + w div 2 < n + w div 2 then Fin (window_mean w n px p) else row0 ! p)"
    by blast
  have "row = map (\<lambda>p. Fin (window_mean w n px p)) [0..<n]"
    using l r len by (intro nth_equalityI) simp_all
  then show ?thesis by (simp add: window_loop_def n f)
qed

lemma fold_update_list_length [simp]:
  "length (fold (\<lambda>k d. d[f k := g k]) xs d) = length d"
  by (induction xs arbitrary: d) simp_all

lemma fold_update_list_other:
  "j \<notin> f ` set xs \<Longrightarrow> fold (\<lambda>k d. d[f k := g k]) xs d ! j = d ! j"
  by (induction xs arbitrary: d) auto

lemma fold_update_list_hit:
  "distinct xs \<Longrightarrow> inj_on f (set xs) \<Longrightarrow> k \<in> set xs \<Longrightarrow> f k < length d \<Longrightarrow>
   fold (\<lambda>k d. d[f k := g k]) xs d ! f k = g k"
proof (induction xs arbitrary: d)
  case Nil
  then show ?case by simp
next
  case (Cons a xs)
  show ?case
  proof (cases "k = a")
    case True
    then have "f a \<notin> f ` set xs" using Cons.prems by (auto simp: inj_on_def)
    then show ?thesis using True Cons.prems by (simp add: fold_update_list_other)
  next
    case False
    then show ?thesis using Cons by (auto simp: inj_on_def)
  qed
qed

lemma getIndex_set_pixel [simp]: "getIndex (set_pixel img c p) c' = getIndex img c'"
  by (simp add: getIndex_def getIndexUnsafe_def set_pixel_def)

lemma set_pixel_fold_data:
  "m_data (fold (\<lambda>k im. set_pixel im (c k) (g k)) xs img)
     = fold (\<lambda>k d. d[nat (getIndex img (c k)) := g k]) xs (m_data img)"
proof (induction xs arbitrary: img)
  case Nil
  show ?case by simp
next
  case (Cons a xs)
  have "(\<lambda>k d. d[nat (getIndex (set_pixel img (c a) (g a)) (c k)) := g k])
          = (\<lambda>k d. d[nat (getIndex img (c k)) := g k])"
    by simp
  then show ?case using Cons [of "set_pixel img (c a) (g a)"] by (simp add: set_pixel_def)
qed

lemma set_pixel_fold_width [simp]:
  "m_width (fold (\<lambda>k im. set_pixel im (c k) (g k)) xs img) = m_width img"
  by (induction xs arbitrary: img) (simp_all add: set_pixel_def)

lemma set_pixel_fold_height [simp]:
  "m_height (fold (\<lambda>k im. set_pixel im (c k) (g k)) xs img) = m_height img"
  by (induction xs arbitrary: img) (simp_all add: set_pixel_def)

lemma getIndex_in_range:
  assumes "m_width img = int W" "m_height img = int H" "x < W" "y < H"
  shows "nat (getIndex img (int x, int y)) = y * W + x"
proof -
  have "clamp (int x) 0 (int W - 1) = int x" "clamp (int y) 0 (int H - 1) = int y"
    using assms by (simp_all add: clamp_def)
  then have "getIndex img (int x, int y) = int y * int W + int x"
    using assms by (simp add: getIndex_def getIndexUnsafe_def)
  also have "\<dots> = int (y * W + x)" by simp
  finally show ?thesis by (simp only: nat_int)
qed

lemma getIndex_pass_coord:
  assumes "m_width img = int W" "m_height img = int H"
    "i < outer_count vertical W H" "k < inner_count vertical W H"
  shows "nat (getIndex img (pass_coord vertical (int i) (int k))) = line_index vertical W i k"
  using assms getIndex_in_range [of img W H]
  by (auto simp: pass_coord_def line_index_def outer_count_def inner_count_def)

lemma line_index_less:
  assumes "i < outer_count vertical W H" "k < inner_count vertical W H"
  shows "line_index vertical W i k < W * H"
proof (cases vertical)
  case True
  then have "i < W" "k < H" using assms by (simp_all add: outer_count_def inner_count_def)
  then have "k * W + i < k * W + W" by simp
  also have "\<dots> = Suc k * W" by simp
  also have "\<dots> \<le> H * W" using \<open>k < H\<close> by (intro mult_le_mono1) simp
  finally show ?thesis using True by (simp add: line_index_def mult.commute)
next
  case False
  then have "i < H" "k < W" using assms by (simp_all add: outer_count_def inner_count_def)
  then have "i * W + k < i * W + W" by simp
  also have "\<dots> = Suc i * W" by simp
  also have "\<dots> \<le> H * W" using \<open>i < H\<close> by (intro mult_le_mono1) simp
  finally show ?thesis using False by (simp add: line_index_def mult.commute)
qed

lemma row_col_unique:
  fixes W :: nat
  assumes "a * W + b = c * W + d" "b < W" "d < W"
  shows "a = c \<and> b = d"
proof -
  have "(a * W + b) div W = a" using assms(2) by simp
  moreover have "(c * W + d) div W = c" using assms(3) by simp
  ultimately have "a = c" by (simp only: assms(1))
  then show ?thesis using assms(1) by simp
qed

lemma line_index_inj:
  assumes "line_index vertical W i k = line_index vertical W i' k'"
    "i < outer_count vertical W H" "k < inner_count vertical W H"
    "i' < outer_count vertical W H" "k' < inner_count vertical W H"
  shows "i = i' \<and> k = k'"
  using assms row_col_unique [of k W i k' i'] row_col_unique [of i W k i' k']
  by (auto simp: line_index_def outer_count_def inner_count_def split: if_splits)

lemma copy_back_data:
  assumes dims: "m_width img = int W" "m_height img = int H"
    and i: "i < outer_count vertical W H"
  shows "m_data (copy_back vertical (int (inner_count vertical W H)) (int i) row img)
           = fold (\<lambda>k d. d[line_index vertical W i k := row ! k])
               [0..<inner_count vertical W H] (m_data img)"
proof -
  have "fold (\<lambda>k d. d[nat (getIndex img (pass_coord vertical (int i) (int k))) := row ! k])
          [0..<inner_count vertical W H] (m_data img)
        = fold (\<lambda>k d. d[line_index vertical W i k := row ! k])
          [0..<inner_count vertical W H] (m_data img)"
    by (rule fold_cong) (simp_all add: getIndex_pass_coord [OF dims i])
  then show ?thesis by (simp add: copy_back_def set_pixel_fold_data)
qed

lemma pass_line_result:
  assumes dims: "m_width img = int W" "m_height img = int H"
    and len: "length (m_data img) = W * H"
    and i: "i < outer_count vertical W H" and w: "1 \<le> w"
    and fin: "\<forall>k < inner_count vertical W H. m_data img ! line_index vertical W i k = Fin (px k)"
    and row: "length row = inner_count vertical W H"
  shows "\<exists>img' row'.
           pass_line vertical (int w) (int (inner_count vertical W H)) (int i) (img, row)
             = (img', row') \<and>
           m_width img' = int W \<and> m_height img' = int H \<and> length (m_data img') = W * H \<and>
           length row' = inner_count vertical W H \<and>
           (\<forall>k < inner_count vertical W H.
              m_data img' ! line_index vertical W i k
                = Fin (window_mean w (inner_count vertical W H) px k)) \<and>
           (\<forall>j. (\<forall>k < inner_count vertical W H. j \<noteq> line_index vertical W i k)
                 \<longrightarrow> m_data img' ! j = m_data img ! j)"
proof -
  let ?n = "inner_count vertical W H"
  let ?line = "\<lambda>k. pixel_at img (pass_coord vertical (int i) k)"
  let ?row1 = "map (\<lambda>p. Fin (window_mean w ?n px p)) [0..<?n]"
  let ?img' = "copy_back vertical (int ?n) (int i) ?row1 img"
  let ?f = "line_index vertical W i"
  have line: "\<forall>j < ?n. ?line (int j) = Fin (px j)"
    using fin by (simp add: pixel_at_def getIndex_pass_coord [OF dims i])
  have row1: "snd (snd (window_loop ?line (int w) (int ?n) row)) = ?row1"
    by (rule window_loop_row [OF line w row])
  have eq: "pass_line vertical (int w) (int ?n) (int i) (img, row) = (?img', ?row1)"
    by (simp add: pass_line_def Let_def row1)
  have data: "m_data ?img' = fold (\<lambda>k d. d[?f k := ?row1 ! k]) [0..<?n] (m_data img)"
    by (rule copy_back_data [OF dims i])
  have inj: "inj_on ?f (set [0..<?n])"
    using line_index_inj [OF _ i _ i] by (auto simp: inj_on_def)
  have hit: "\<forall>k < ?n. m_data ?img' ! ?f k = Fin (window_mean w ?n px k)"
  proof (intro allI impI)
    fix k assume k: "k < ?n"
    have "fold (\<lambda>k d. d[?f k := ?row1 ! k]) [0..<?n] (m_data img) ! ?f k = ?row1 ! k"
      using k line_index_less [OF i k] len inj
      by (intro fold_update_list_hit) simp_all
    then show "m_data ?img' ! ?f k = Fin (window_mean w ?n px k)"
      using k by (simp add: data)
  qed
  have other: "\<forall>j. (\<forall>k < ?n. j \<noteq> ?f k) \<longrightarrow> m_data ?img' ! j = m_data img ! j"
  proof (intro allI impI)
    fix j assume "\<forall>k < ?n. j \<noteq> ?f k"
    then have "j \<notin> ?f ` set [0..<?n]" by auto
    then have "fold (\<lambda>k d. d[?f k := ?row1 ! k]) [0..<?n] (m_data img) ! j = m_data img ! j"
      by (rule fold_update_list_other)
    then show "m_data ?img' ! j = m_data img ! j"
      by (simp only: data)
  qed
  have "length (m_data ?img') = W * H"
    using len by (simp only: data fold_update_list_length)
  moreover have "m_width ?img' = int W" "m_height ?img' = int H"
    using dims by (simp_all add: copy_back_def)
  ultimately show ?thesis using eq hit other by (intro exI [of _ ?img'] exI [of _ ?row1]) simp
qed

lemma pass_fold_inv:
  assumes dims: "m_width img = int W" "m_height img = int H"
    and data: "m_data img = map Fin rs" and len: "length rs = W * H"
    and w: "1 \<le> w" and row0: "length row0 = inner_count vertical W H"
    and i0: "i0 \<le> outer_count vertical W H"
  shows "\<exists>cur row.
           fold (\<lambda>i. pass_line vertical (int w) (int (inner_count vertical W H)) (int i))
             [0..<i0] (img, row0) = (cur, row) \<and>
           m_width cur = int W \<and> m_height cur = int H \<and> length (m_data cur) = W * H \<and>
           length row = inner_count vertical W H \<and>
           (\<forall>i < outer_count vertical W H. \<forall>k < inner_count vertical W H.
              m_data cur ! line_index vertical W i k =
                (if i < i0 then Fin (line_mean vertical w W H rs i k)
                 else Fin (rs ! line_index vertical W i k)))"
  using i0
proof (induction i0)
  case 0
  have "\<forall>i < outer_count vertical W H. \<forall>k < inner_count vertical W H.
          m_data img ! line_index vertical W i k = Fin (rs ! line_index vertical W i k)"
    using line_index_less [of _ vertical W H] len by (simp add: data)
  then show ?case using dims len row0 by (simp add: data)
next
  case (Suc i0)
  let ?m = "outer_count vertical W H" and ?n = "inner_count vertical W H"
  let ?f = "line_index vertical W"
  from Suc have i0: "i0 < ?m" by simp
  from Suc obtain cur row where
    f: "fold (\<lambda>i. pass_line vertical (int w) (int ?n) (int i)) [0..<i0] (img, row0) = (cur, row)"
    and d: "m_width cur = int W" "m_height cur = int H" and l: "length (m_data cur) = W * H"
    and r: "length row = ?n"
    and v: "\<forall>i < ?m. \<forall>k < ?n. m_data cur ! ?f i k =
              (if i < i0 then Fin (line_mean vertical w W H rs i k) else Fin (rs ! ?f i k))"
    by auto
  have fin: "\<forall>k < ?n. m_data cur ! ?f i0 k = Fin (rs ! ?f i0 k)"
    using v i0 by simp
  from pass_line_result [OF d l i0 w fin r] obtain img' row' where
    p: "pass_line vertical (int w) (int ?n) (int i0) (cur, row) = (img', row')"
    and d': "m_width img' = int W" "m_height img' = int H" and l': "length (m_data img') = W * H"
    and r': "length row' = ?n"
    and hit: "\<forall>k < ?n. m_data img' ! ?f i0 k = Fin (window_mean w ?n (\<lambda>k'. rs ! ?f i0 k') k)"
    and other: "\<forall>j. (\<forall>k < ?n. j \<noteq> ?f i0 k) \<longrightarrow> m_data img' ! j = m_data cur ! j"
    by blast
  have f': "fold (\<lambda>i. pass_line vertical (int w) (int ?n) (int i)) [0..<Suc i0] (img, row0)
              = (img', row')"
    by (simp add: f p)
  have v': "\<forall>i < ?m. \<forall>k < ?n. m_data img' ! ?f i k =
              (if i < Suc i0 then Fin (line_mean vertical w W H rs i k) else Fin (rs ! ?f i k))"
  proof (intro allI impI)
    fix i k assume i: "i < ?m" and k: "k < ?n"
    show "m_data img' ! ?f i k =
            (if i < Suc i0 then Fin (line_mean vertical w W H rs i k) else Fin (rs ! ?f i k))"
    proof (cases "i = i0")
      case True
      then show ?thesis using hit k by (simp add: line_mean_def)
    next
      case False
      have "\<forall>k' < ?n. ?f i k \<noteq> ?f i0 k'"
        using line_index_inj [OF _ i k i0] False by blast
      then have "m_data img' ! ?f i k = m_data cur ! ?f i k" using other by blast
      moreover have "i < Suc i0 \<longleftrightarrow> i < i0" using False by arith
      ultimately show ?thesis using v i k by simp
    qed
  qed
  show ?case using f' d' l' r' v' by blast
qed

lemma boxFilterPass_lines:
  assumes dims: "m_width img = int W" "m_height img = int H"
    and data: "m_data img = map Fin rs" and len: "length rs = W * H" and w: "1 \<le> w"
  shows "m_width (boxFilterPass vertical img (int w)) = int W \<and>
         m_height (boxFilterPass vertical img (int w)) = int H \<and>
         length (m_data (boxFilterPass vertical img (int w))) = W * H \<and>
         (\<forall>i < outer_count vertical W H. \<forall>k < inner_count vertical W H.
            m_data (boxFilterPass vertical img (int w)) ! line_index vertical W i k
              = Fin (line_mean vertical w W H rs i k))"
proof -
  let ?m = "outer_count vertical W H" and ?n = "inner_count vertical W H"
  have o: "nat (if vertical then m_width img else m_height img) = ?m"
    and n: "(if vertical then m_height img else m_width img) = int ?n"
    using dims by (simp_all add: outer_count_def inner_count_def)
  have r0: "length (replicate ?n (0::flt)) = ?n" by simp
  from pass_fold_inv [OF dims data len w r0 order_refl] obtain cur row where
    f: "fold (\<lambda>i. pass_line vertical (int w) (int ?n) (int i)) [0..<?m]
          (img, replicate ?n 0) = (cur, row)"
    and d: "m_width cur = int W" "m_height cur = int H" "length (m_data cur) = W * H"
    and v: "\<forall>i < ?m. \<forall>k < ?n. m_data cur ! line_index vertical W i k =
              (if i < ?m then Fin (line_mean vertical w W H rs i k)
               else Fin (rs ! line_index vertical W i k))"
    by blast
  have "boxFilterPass vertical img (int w) = cur"
    by (simp add: boxFilterPass_def Let_def o n f)
  then show ?thesis using d v by simp
qed

lemma box_window_bound: "j \<in> box_window w n p \<Longrightarrow> j < n"
  by (simp add: box_window_def)

lemma window_mean_cong:
  "(\<And>j. j \<in> box_window w n p \<Longrightarrow> px j = px' j) \<Longrightarrow> window_mean w n px p = window_mean w n px' p"
  by (simp add: window_mean_def)

lemma index_split:
  fixes W :: nat
  assumes "j < W * H"
  shows "j div W < H" "j mod W < W" "j div W * W + j mod W = j"
proof -
  have W: "0 < W" using assms by (cases "W = 0") simp_all
  show "j div W < H" using assms W by (simp add: less_mult_imp_div_less mult.commute)
  show "j mod W < W" using W by simp
  show "j div W * W + j mod W = j" by simp
qed

lemma boxFilterPass_data:
  assumes dims: "m_width img = int W" "m_height img = int H"
    and data: "m_data img = map Fin rs" and len: "length rs = W * H" and w: "1 \<le> w"
  shows "boxFilterPass vertical img (int w)
           = img\<lparr>m_data := map (\<lambda>j. Fin (if vertical
                                          then line_mean True w W H rs (j mod W) (j div W)
                                          else line_mean False w W H rs (j div W) (j mod W)))
                               [0..<W * H]\<rparr>"
proof -
  let ?out = "boxFilterPass vertical img (int w)"
  note L = boxFilterPass_lines [OF dims data len w, of vertical]
  have "m_data ?out = map (\<lambda>j. Fin (if vertical
                                          then line_mean True w W H rs (j mod W) (j div W)
                                          else line_mean False w W H rs (j div W) (j mod W)))
                               [0..<W * H]"
  proof (rule nth_equalityI)
    show "length (m_data ?out) = length (map (\<lambda>j. Fin (if vertical
                                          then line_mean True w W H rs (j mod W) (j div W)
                                          else line_mean False w W H rs (j div W) (j mod W)))
                               [0..<W * H])"
      using L by simp
  next
    fix j assume "j < length (m_data ?out)"
    then have j: "j < W * H" using L by simp
    note s = index_split [OF j]
    show "m_data ?out ! j = map (\<lambda>j. Fin (if vertical
                                          then line_mean True w W H rs (j mod W) (j div W)
                                          else line_mean False w W H rs (j div W) (j mod W)))
                               [0..<W * H] ! j"
    proof (cases vertical)
      case True
      have "m_data ?out ! line_index vertical W (j mod W) (j div W)
              = Fin (line_mean vertical w W H rs (j mod W) (j div W))"
        using L s True by (simp add: outer_count_def inner_count_def)
      then show ?thesis using True s j by (simp add: line_index_def)
    next
      case False
      have "m_data ?out ! line_index vertical W (j div W) (j mod W)
              = Fin (line_mean vertical w W H rs (j div W) (j mod W))"
        using L s False by (simp add: outer_count_def inner_count_def)
      then show ?thesis using False s j by (simp add: line_index_def)
    qed
  qed
  then show ?thesis using L dims by (intro image_eqI) simp_all
qed

lemma boxFilter_data:
  assumes dims: "m_width img = int W" "m_height img = int H"
    and data: "m_data img = map Fin rs" and len: "length rs = W * H" and w: "1 \<le> w"
    and n: "w < 2 ^ 31"
  shows "boxFilter img w
           = img\<lparr>m_data := map (\<lambda>j. Fin (box_mean w W H rs (j mod W) (j div W))) [0..<W * H]\<rparr>"
proof -
  let ?hs = "map (\<lambda>j. line_mean False w W H rs (j div W) (j mod W)) [0..<W * H]"
  let ?h = "img\<lparr>m_data := map Fin ?hs\<rparr>"
  have h: "boxFilterPass False img (int w) = ?h"
    using boxFilterPass_data [OF dims data len w, of False] by (simp add: comp_def)
  have hd: "m_width ?h = int W" "m_height ?h = int H" "m_data ?h = map Fin ?hs"
    "length ?hs = W * H"
    using dims by simp_all
  have v: "boxFilterPass True ?h (int w)
             = ?h\<lparr>m_data := map (\<lambda>j. Fin (line_mean True w W H ?hs (j mod W) (j div W)))
                                [0..<W * H]\<rparr>"
    using boxFilterPass_data [OF hd w, of True] by simp
  have "line_mean True w W H ?hs (j mod W) (j div W) = box_mean w W H rs (j mod W) (j div W)"
    if j: "j < W * H" for j
  proof -
    note s = index_split [OF j]
    have "?hs ! (y' * W + j mod W) = window_mean w W (\<lambda>x'. rs ! (y' * W + x')) (j mod W)"
      if "y' \<in> box_window w H (j div W)" for y'
    proof -
      have y': "y' < H" using that by (rule box_window_bound)
      have "y' * W + j mod W < y' * W + W" using s by simp
      also have "\<dots> = Suc y' * W" by simp
      also have "\<dots> \<le> H * W" using y' by (intro mult_le_mono1) simp
      finally have lt: "y' * W + j mod W < W * H" by (simp add: mult.commute)
      have "(y' * W + j mod W) div W = y'" "(y' * W + j mod W) mod W = j mod W"
        using s by simp_all
      then show ?thesis using lt
        by (simp add: line_mean_def inner_count_def line_index_def)
    qed
    then show ?thesis
      unfolding box_mean_def line_mean_def inner_count_def line_index_def
      by (simp cong: window_mean_cong)
  qed
  then have "map (\<lambda>j. Fin (line_mean True w W H ?hs (j mod W) (j div W))) [0..<W * H]
           = map (\<lambda>j. Fin (box_mean w W H rs (j mod W) (j div W))) [0..<W * H]"
    by simp
  then show ?thesis by (simp only: boxFilter_narrow [OF n] h v) simp
qed







lemma box_mean_one:
  assumes "x < W" "y < H"
  shows "box_mean (Suc 0) W H rs x y = rs ! (y * W + x)"
proof -
  have "box_window (Suc 0) W x = {x}" "box_window (Suc 0) H y = {y}"
    using assms by (auto simp: box_window_def)
  then show ?thesis by (simp add: box_mean_def window_mean_def)
qed

lemma boxFilter_one:
  assumes dims: "m_width img = int W" "m_height img = int H"
    and data: "m_data img = map Fin rs" and len: "length rs = W * H"
  shows "boxFilter img 1 = img"
proof -
  have "box_mean 1 W H rs (j mod W) (j div W) = rs ! j" if j: "j < W * H" for j
    using index_split [OF j] by (simp add: box_mean_one)
  then have "map (\<lambda>j. Fin (box_mean 1 W H rs (j mod W) (j div W))) [0..<W * H] = map Fin rs"
    using len by (intro nth_equalityI) simp_all
  then show ?thesis using boxFilter_data [OF dims data len, of 1] data by simp
qed

subsection \<open>The claims about the box filter\<close>








text \<open>The narrowing of the argument: \<open>2\<^sup>3\<^sup>2\<close> is the window size 0 and \<open>2\<^sup>3\<^sup>2 + 1\<close> is the window
  size 1.\<close>

lemma boxFilter_narrowed:
  "boxFilter \<lparr>m_width = 1, m_height = 1, m_data = [Fin 1]\<rparr> (2 ^ 32)
     = \<lparr>m_width = 1, m_height = 1, m_data = [NaN]\<rparr>"
  "boxFilter img (2 ^ 32 + 1) = boxFilter img 1"
  by (simp_all add: boxFilter_def coord_int_def boxFilterPass_def pass_line_def window_loop_def
      window_step_def copy_back_def set_pixel_def pixel_at_def getIndex_def getIndexUnsafe_def
      clamp_def pass_coord_def c_div_def Let_def zero_flt_def fsub_def)

section \<open>The constructors and the dimensions\<close>

lemma pass_line_dims:
  "m_width (fst (pass_line vertical w n i st)) = m_width (fst st) \<and>
   m_height (fst (pass_line vertical w n i st)) = m_height (fst st)"
  by (cases st) (simp add: pass_line_def Let_def copy_back_def)

lemma fold_pass_line_dims:
  "m_width (fst (fold (\<lambda>i. pass_line vertical w n (int i)) xs st)) = m_width (fst st) \<and>
   m_height (fst (fold (\<lambda>i. pass_line vertical w n (int i)) xs st)) = m_height (fst st)"
  by (induction xs arbitrary: st) (simp_all add: pass_line_dims)

lemma boxFilterPass_dims:
  "m_width (boxFilterPass vertical img w) = m_width img \<and>
   m_height (boxFilterPass vertical img w) = m_height img"
  by (simp add: boxFilterPass_def Let_def fold_pass_line_dims)

lemma normalise_dims:
  "m_width (normalise img) = m_width img \<and> m_height (normalise img) = m_height img"
  by (simp add: normalise_def Let_def split: prod.splits)

lemma binaryAssignmentOp_dims:
  "binaryAssignmentOp l r op = Inr l' \<Longrightarrow> m_width l' = m_width l \<and> m_height l' = m_height l"
  by (auto simp: binaryAssignmentOp_def checkSizes_def fold_update_width fold_update_height
      split: if_splits)

lemma scalarOp_dims:
  "m_width (scalarOp l v op) = m_width l \<and> m_height (scalarOp l v op) = m_height l"
  by (simp add: scalarOp_def)

lemma binaryOp_dims:
  "binaryOp l r op = Inr out \<Longrightarrow> m_width out = m_width l \<and> m_height out = m_height l"
  by (auto simp: binaryOp_def checkSizes_def BaseImage_dims_def fold_update_width
      fold_update_height split: if_splits)

lemma BaseImage_dims_size:
  "BaseImage_dims w h = Inr img \<Longrightarrow>
   data_size img = size_t (coord_int (w * h)) \<and> m_width img = w \<and> m_height img = h"
  by (auto simp: BaseImage_dims_def data_size_def split: if_splits)

lemma BaseImage_dims_ok:
  assumes "0 \<le> w * h" "w * h < 2 ^ 31"
  shows "BaseImage_dims w h
           = Inr \<lparr>m_width = w, m_height = h, m_data = replicate (nat (w * h)) 0\<rparr>"
  using assms by (simp add: BaseImage_dims_def coord_int_id size_t_id)

lemma BaseImage_move_size:
  "BaseImage_move w h d = Inr img \<Longrightarrow>
   data_size img = length d \<and> size_t (coord_int (w * h)) \<le> data_size img \<and>
   m_width img = w \<and> m_height img = h"
  by (auto simp: BaseImage_move_def data_size_def split: if_splits)

lemma BaseImage_move_ok:
  assumes "0 \<le> w * h" "w * h < 2 ^ 31"
  shows "BaseImage_move w h d
           = (if w * h \<le> int (length d) then Inr \<lparr>m_width = w, m_height = h, m_data = d\<rparr>
              else Inl AssertionFailure)"
  using assms by (auto simp: BaseImage_move_def coord_int_id size_t_id)

text \<open>
  Claim C10, as amended. Let the product \<^verbatim>\<open>width*height\<close> of the two dimensions be a
  non-negative \<^verbatim>\<open>coord_int\<close>, that is, at least 0 and below \<open>2\<^sup>3\<^sup>1\<close>. The constructor from two
  dimensions then succeeds and the image holds \<^verbatim>\<open>width*height\<close> pixels. The constructor from a
  moved pixel vector succeeds exactly when the vector has at least \<^verbatim>\<open>width*height\<close> elements,
  and the image holds the pixels of the vector: its size is \<^verbatim>\<open>width*height\<close> exactly when the
  vector has that many elements. In both, the width and the height are the ones given, and
  the operations on an image (the assignment of a pixel, the assignment operators with an
  image or with a float, \<open>normalise\<close>, the passes of the box filter) keep them; the
  operators that return a new image give it the dimensions of their left operand.
\<close>

theorem constructors_size:
  "(0 \<le> w * h \<and> w * h < 2 ^ 31 \<longrightarrow>
      (\<exists>img :: 'p::zero BaseImage.
         BaseImage_dims w h = Inr img \<and> int (data_size img) = w * h \<and>
         m_width img = w \<and> m_height img = h \<and> m_data img = replicate (nat (w * h)) 0)) \<and>
   (0 \<le> w' * h' \<and> w' * h' < 2 ^ 31 \<longrightarrow>
      (w' * h' \<le> int (length d) \<longrightarrow>
         (\<exists>img'. BaseImage_move w' h' d = Inr img' \<and> data_size img' = length d \<and>
                 w' * h' \<le> int (data_size img') \<and> m_width img' = w' \<and> m_height img' = h' \<and>
                 m_data img' = d \<and>
                 (int (data_size img') = w' * h' \<longleftrightarrow> int (length d) = w' * h'))) \<and>
      (int (length d) < w' * h' \<longrightarrow> BaseImage_move w' h' d = Inl AssertionFailure)) \<and>
   m_width (set_pixel im c p) = m_width im \<and> m_height (set_pixel im c p) = m_height im \<and>
   (binaryAssignmentOp l r op = Inr l' \<longrightarrow> m_width l' = m_width l \<and> m_height l' = m_height l) \<and>
   (binaryOp l r op' = Inr out \<longrightarrow> m_width out = m_width l \<and> m_height out = m_height l) \<and>
   m_width (scalarOp im v sop) = m_width im \<and> m_height (scalarOp im v sop) = m_height im \<and>
   m_width (normalise g) = m_width g \<and> m_height (normalise g) = m_height g \<and>
   m_width (boxFilterPass vertical g k) = m_width g \<and>
   m_height (boxFilterPass vertical g k) = m_height g"
proof -
  have a: "\<exists>img :: 'p BaseImage.
         BaseImage_dims w h = Inr img \<and> int (data_size img) = w * h \<and>
         m_width img = w \<and> m_height img = h \<and> m_data img = replicate (nat (w * h)) 0"
    if "0 \<le> w * h" "w * h < 2 ^ 31"
    using that by (simp add: BaseImage_dims_ok data_size_def)
  have b: "\<exists>img'. BaseImage_move w' h' d = Inr img' \<and> data_size img' = length d \<and>
                 w' * h' \<le> int (data_size img') \<and> m_width img' = w' \<and> m_height img' = h' \<and>
                 m_data img' = d \<and>
                 (int (data_size img') = w' * h' \<longleftrightarrow> int (length d) = w' * h')"
    if "0 \<le> w' * h'" "w' * h' < 2 ^ 31" "w' * h' \<le> int (length d)"
    using that by (simp add: BaseImage_move_ok data_size_def)
  have c: "BaseImage_move w' h' d = Inl AssertionFailure"
    if "0 \<le> w' * h'" "w' * h' < 2 ^ 31" "int (length d) < w' * h'"
    using that by (simp add: BaseImage_move_ok)
  show ?thesis
    using a b c binaryAssignmentOp_dims [of l r op l'] binaryOp_dims [of l r op' out]
      normalise_dims [of g] boxFilterPass_dims [of vertical g k] scalarOp_dims [of im v sop]
    by (simp add: set_pixel_def)
qed

theorem constructors_size_witness:
  "BaseImage_dims 2 3 = Inr \<lparr>m_width = 2, m_height = 3, m_data = replicate 6 (0 :: flt)\<rparr> \<and>
   data_size \<lparr>m_width = 2, m_height = 3, m_data = replicate 6 (0 :: flt)\<rparr> = 6 \<and>
   BaseImage_move 2 1 [Fin 1, Fin 2] = Inr \<lparr>m_width = 2, m_height = 1, m_data = [Fin 1, Fin 2]\<rparr> \<and>
   data_size \<lparr>m_width = 2, m_height = 1, m_data = [Fin 1, Fin 2]\<rparr> = 2 \<and>
   BaseImage_move 2 2 [Fin 1, Fin 2] = Inl AssertionFailure \<and>
   binaryAssignmentOp \<lparr>m_width = 2, m_height = 1, m_data = [Fin 1, Fin 2]\<rparr>
     \<lparr>m_width = 2, m_height = 1, m_data = [Fin 1, Fin 2]\<rparr> fmul
     = Inr \<lparr>m_width = 2, m_height = 1, m_data = [Fin 1, Fin 4]\<rparr> \<and>
   binaryOp \<lparr>m_width = 2, m_height = 1, m_data = [Fin 1, Fin 2]\<rparr>
     \<lparr>m_width = 2, m_height = 1, m_data = [Fin 1, Fin 2]\<rparr> fadd
     = Inr \<lparr>m_width = 2, m_height = 1, m_data = [Fin 2, Fin 4]\<rparr>"
proof -
  let ?x = "\<lparr>m_width = 2, m_height = 1, m_data = [Fin 1, Fin 2]\<rparr>"
  have w: "wf_image ?x" by (simp add: wf_image_def)
  have m: "binaryAssignmentOp ?x ?x fmul
             = Inr \<lparr>m_width = 2, m_height = 1, m_data = [Fin 1, Fin 4]\<rparr>"
    by (simp add: binaryAssignmentOp_ok [OF w w])
  have p: "binaryOp ?x ?x fadd = Inr \<lparr>m_width = 2, m_height = 1, m_data = [Fin 2, Fin 4]\<rparr>"
    by (simp add: binaryOp_ok [OF w w])
  have a: "\<exists>img :: flt BaseImage.
          BaseImage_dims 2 3 = Inr img \<and> int (data_size img) = 2 * 3 \<and>
          m_width img = 2 \<and> m_height img = 3 \<and> m_data img = replicate 6 0"
    using constructors_size [where w = 2 and h = 3 and 'p = flt, THEN conjunct1] by simp
  have b: "\<exists>img'. BaseImage_move 2 1 [Fin 1, Fin 2] = Inr img' \<and>
           data_size img' = length [Fin 1, Fin 2] \<and> m_width img' = 2 \<and> m_height img' = 1 \<and>
           m_data img' = [Fin 1, Fin 2]"
    using constructors_size [where w' = 2 and h' = 1 and d = "[Fin 1, Fin 2]",
        THEN conjunct2, THEN conjunct1]
    by auto
  have c: "BaseImage_move 2 2 [Fin 1, Fin 2] = Inl AssertionFailure"
    using constructors_size [where w' = 2 and h' = 2 and d = "[Fin 1, Fin 2]",
        THEN conjunct2, THEN conjunct1]
    by simp
  have "(\<exists>img :: flt BaseImage.
          BaseImage_dims 2 3 = Inr img \<and> int (data_size img) = 2 * 3 \<and>
          m_width img = 2 \<and> m_height img = 3 \<and> m_data img = replicate 6 0) \<and>
        (\<exists>img'. BaseImage_move 2 1 [Fin 1, Fin 2] = Inr img' \<and>
           data_size img' = length [Fin 1, Fin 2] \<and> m_width img' = 2 \<and> m_height img' = 1 \<and>
           m_data img' = [Fin 1, Fin 2]) \<and>
        BaseImage_move 2 2 [Fin 1, Fin 2] = Inl AssertionFailure"
    using a b c by blast
  then show ?thesis
    using m p by (auto simp: data_size_def intro!: image_eqI)
qed

text \<open>The claim as it is stated fails for the constructor from a moved vector: a vector of
  two pixels is accepted for a 1x1 image.\<close>

theorem constructors_size_counterexample:
  "BaseImage_move 1 1 [Fin 1, Fin 2] = Inr \<lparr>m_width = 1, m_height = 1, m_data = [Fin 1, Fin 2]\<rparr> \<and>
   int (data_size \<lparr>m_width = 1, m_height = 1, m_data = [Fin 1, Fin 2]\<rparr>) \<noteq> 1 * 1"
  by (simp add: BaseImage_move_def data_size_def coord_int_def size_t_def)

text \<open>The constructor from a raw pointer appends the copied pixels to a vector that the
  delegated constructor has already sized: the image holds twice \<^verbatim>\<open>width*height\<close> pixels.\<close>

lemma BaseImage_ptr_doubles:
  "BaseImage_ptr 1 1 [Fin 5] = Inr \<lparr>m_width = 1, m_height = 1, m_data = [Fin 0, Fin 5]\<rparr>"
  by (simp add: BaseImage_ptr_def BaseImage_dims_def zero_flt_def coord_int_def size_t_def)

text \<open>A product of the dimensions that is not a \<^verbatim>\<open>coord_int\<close> wraps around: for
  \<open>65536 \<times> 65536\<close> the product is 0, the constructor from two dimensions builds an image
  without pixels, and the constructor from a vector accepts the empty vector.\<close>

lemma BaseImage_product_wraps:
  "BaseImage_dims 65536 65536
     = Inr \<lparr>m_width = 65536, m_height = 65536, m_data = ([] :: flt list)\<rparr>"
  "BaseImage_move 65536 65536 ([] :: flt list)
     = Inr \<lparr>m_width = 65536, m_height = 65536, m_data = []\<rparr>"
  by (simp_all add: BaseImage_dims_def BaseImage_move_def coord_int_def size_t_def)
section \<open>normalise\<close>

lemma fmin_Fin [simp]: "fmin (Fin a) (Fin b) = Fin (min a b)"
  by (simp add: fmin_def min_def)

lemma fmax_Fin [simp]: "fmax (Fin a) (Fin b) = Fin (max a b)"
  by (simp add: fmax_def max_def)

lemma fdiv_zero_not_finite: "\<not> is_finite (fdiv x (Fin 0))"
  by (cases x) simp_all

lemma Min_insert_min:
  fixes a :: "'a::linorder"
  assumes "finite S"
  shows "Min (insert (min a r) S) = Min (insert a (insert r S))"
  using assms by (cases "S = {}") (simp_all add: min.assoc)

lemma Max_insert_max:
  fixes a :: "'a::linorder"
  assumes "finite S"
  shows "Max (insert (max a r) S) = Max (insert a (insert r S))"
  using assms by (cases "S = {}") (simp_all add: max.assoc)

lemma minmax_fold_Fin:
  "fold (\<lambda>p (mn, mx). (fmin mn p, fmax mx p)) (map Fin rs) (Fin a, Fin b)
     = (Fin (Min (insert a (set rs))), Fin (Max (insert b (set rs))))"
proof (induction rs arbitrary: a b)
  case Nil
  show ?case by simp
next
  case (Cons r rs)
  have "Min (insert (min a r) (set rs)) = Min (insert a (insert r (set rs)))"
    by (rule Min_insert_min) simp
  moreover have "Max (insert (max b r) (set rs)) = Max (insert b (insert r (set rs)))"
    by (rule Max_insert_max) simp
  ultimately show ?case using Cons [of "min a r" "max b r"] by simp
qed

lemma normalise_Fin:
  assumes "m_data img = map Fin rs"
  shows "normalise img
           = img\<lparr>m_data := map (\<lambda>p. fdiv (Fin (p - Min (insert FLT_MAX (set rs))))
                                       (Fin (Max (insert FLT_MIN (set rs))
                                             - Min (insert FLT_MAX (set rs))))) rs\<rparr>"
  by (simp add: normalise_def assms minmax_fold_Fin comp_def del: fdiv.simps)

lemma FLT_MIN_le_MAX: "FLT_MIN \<le> FLT_MAX"
  by (simp add: FLT_MIN_def FLT_MAX_def)

lemma one_le_FLT_MAX: "1 \<le> FLT_MAX"
  by (simp add: FLT_MAX_def)

lemma FLT_MIN_pos: "0 < FLT_MIN"
  by (simp add: FLT_MIN_def)

lemma normalise_flat:
  assumes n: "0 < n" and c: "FLT_MIN \<le> c" "c \<le> FLT_MAX"
    and data: "m_data img = replicate n (Fin c)"
  shows "normalise img = img\<lparr>m_data := replicate n NaN\<rparr>"
proof -
  have d: "m_data img = map Fin (replicate n c)" using data by simp
  have s: "set (replicate n c) = {c}" using n by simp
  have "Min (insert FLT_MAX {c}) = c" "Max (insert FLT_MIN {c}) = c"
    using c by (simp_all add: min_def max_def)
  then show ?thesis
    by (simp add: normalise_Fin [OF d] s map_replicate_const)
qed

lemma normalise_unit_range:
  assumes data: "m_data img = map Fin rs"
    and range: "\<forall>v \<in> set rs. 0 \<le> v \<and> v \<le> 1"
    and ne: "rs \<noteq> []"
    and two: "Min (set rs) < Max (set rs)"
    and big: "FLT_MIN \<le> Max (set rs)"
  shows "normalise img
           = img\<lparr>m_data := map (\<lambda>p. Fin ((p - Min (set rs)) / (Max (set rs) - Min (set rs)))) rs\<rparr>"
proof -
  have ne: "set rs \<noteq> {}" using ne by simp
  have m1: "Min (set rs) \<le> 1" using range ne by (meson List.finite_set Min_in order_trans)
  have "Min (insert FLT_MAX (set rs)) = min FLT_MAX (Min (set rs))"
    using ne by (intro Min_insert) simp_all
  then have lo: "Min (insert FLT_MAX (set rs)) = Min (set rs)"
    using m1 one_le_FLT_MAX by (simp add: min_def)
  have "Max (insert FLT_MIN (set rs)) = max FLT_MIN (Max (set rs))"
    using ne by (intro Max_insert) simp_all
  then have hi: "Max (insert FLT_MIN (set rs)) = Max (set rs)"
    using big by (simp add: max_def)
  show ?thesis using two by (simp add: normalise_Fin [OF data] lo hi)
qed

section \<open>The values of the guided filter\<close>

lemma proper_wf: "proper_image img W H \<Longrightarrow> wf_image img"
  using int_product_bound [of W H]
  by (simp add: proper_image_def wf_image_def nat_mult_distrib)

lemma getView_proper:
  assumes "proper_image img W H"
  shows "getView img = \<lparr>view_offset = (0, 0), view_width = int W, view_height = int H\<rparr>"
  using assms by (simp add: proper_image_def getView_def getView_at_def ImageView_def clamp_def)

lemma forView_proper:
  assumes "proper_image img W H"
  shows "forView (getView img) = Inr (image_coords W H)"
proof -
  let ?v = "\<lparr>view_offset = (0, 0), view_width = int W, view_height = int H\<rparr>"
  have W: "0 < view_width ?v" "0 \<le> view_height ?v" using assms by (simp_all add: proper_image_def)
  have n: "nat (view_width ?v * view_height ?v) = W * H" by (simp add: nat_mult_distrib)
  have "map (row_major ?v) [0..<W * H] = image_coords W H"
    by (simp add: row_major_def image_coords_def coord_add_def zmod_int zdiv_int)
  then show ?thesis using forView_row_major [OF W] by (simp only: getView_proper [OF assms] n)
qed

lemma getIndex_image_coords:
  assumes "proper_image img W H" "k < W * H"
  shows "nat (getIndex img (int (k mod W), int (k div W))) = k"
  using assms index_split [of k W H] getIndex_in_range [of img W H "k mod W" "k div W"]
  by (simp add: proper_image_def)

lemma pixel_at_image_coords:
  assumes "proper_image img W H"
  shows "map (pixel_at img) (image_coords W H) = m_data img"
  using assms getIndex_image_coords [OF assms]
  by (intro nth_equalityI) (simp_all add: image_coords_def pixel_at_def proper_image_def)

lemma copy_back_length:
  "length (m_data (copy_back vertical n i row img)) = length (m_data img)"
  by (simp add: copy_back_def set_pixel_fold_data)

lemma pass_line_length:
  "length (m_data (fst (pass_line vertical w n i st))) = length (m_data (fst st))"
  by (cases st) (simp add: pass_line_def Let_def copy_back_length)

lemma fold_pass_line_length:
  "length (m_data (fst (fold (\<lambda>i. pass_line vertical w n (int i)) xs st)))
     = length (m_data (fst st))"
  by (induction xs arbitrary: st) (simp_all add: pass_line_length)

lemma boxFilterPass_length:
  "length (m_data (boxFilterPass vertical img w)) = length (m_data img)"
  by (simp add: boxFilterPass_def Let_def fold_pass_line_length)

lemma boxFilter_proper:
  "proper_image img W H \<Longrightarrow> proper_image (boxFilter img r) W H"
  by (simp add: proper_image_def boxFilter_def Let_def boxFilterPass_length boxFilterPass_dims)

lemma zip_image_proper:
  "proper_image l W H \<Longrightarrow> proper_image r W H \<Longrightarrow> proper_image (zip_image op l r) W H"
  by (simp add: proper_image_def zip_image_def)

lemma binaryOp_proper:
  assumes "proper_image l W H" "proper_image r W H"
  shows "binaryOp l r op = Inr (zip_image op l r)"
  using binaryOp_ok [OF proper_wf [OF assms(1)] proper_wf [OF assms(2)], of op] assms
  by (simp add: proper_image_def zip_image_def)

lemma binaryAssignmentOp_proper:
  assumes "proper_image l W H" "proper_image r W H"
  shows "binaryAssignmentOp l r op = Inr (zip_image op l r)"
  using binaryAssignmentOp_ok [OF proper_wf [OF assms(1)] proper_wf [OF assms(2)], of op] assms
  by (simp add: proper_image_def zip_image_def)

lemma image_add_scalar_proper:
  "proper_image l W H \<Longrightarrow> proper_image (image_add_scalar l v) W H"
  by (simp add: proper_image_def image_add_scalar_def scalarOp_def)

lemma channel_proper: "proper_image img W H \<Longrightarrow> proper_image (channel f img) W H"
  by (simp add: proper_image_def channel_def)

lemma splitChannels_proper:
  assumes "proper_image img W H"
  shows "splitChannels img = Inr (channel red img, channel green img, channel blue img)"
proof -
  have "W * H < 2 ^ 31" using assms by (simp add: proper_image_def)
  then have "size_t (coord_int (int W * int H)) = W * H" by (rule coord_int_product)
  then show ?thesis
    using assms
    by (simp add: splitChannels_def forView_proper [OF assms] pixel_at_image_coords [OF assms]
        BaseImage_move_def channel_def proper_image_def Let_def)
qed

lemma covariance_proper:
  assumes "proper_image a W H" "proper_image b W H" "proper_image ma W H" "proper_image mb W H"
  shows "covariance rad a b ma mb = Inr (cov_image rad a b ma mb)"
    and "proper_image (cov_image rad a b ma mb) W H"
proof -
  have p: "proper_image (boxFilter (zip_image fmul a b) rad) W H"
    "proper_image (zip_image fmul ma mb) W H"
    using assms by (simp_all add: boxFilter_proper zip_image_proper)
  show "covariance rad a b ma mb = Inr (cov_image rad a b ma mb)"
    using binaryOp_proper [OF assms(1,2), of fmul] binaryOp_proper [OF assms(3,4), of fmul]
      binaryOp_proper [OF p, of fsub]
    by (simp add: covariance_def cov_image_def lift1_def lift2_def image_mul_def image_sub_def)
  show "proper_image (cov_image rad a b ma mb) W H"
    using p by (simp add: cov_image_def zip_image_proper)
qed

lemma cofactor_proper:
  assumes "proper_image a W H" "proper_image b W H" "proper_image c W H" "proper_image d W H"
  shows "cofactor a b c d = Inr (cof_image a b c d)"
    and "proper_image (cof_image a b c d) W H"
proof -
  have p: "proper_image (zip_image fmul a b) W H" "proper_image (zip_image fmul c d) W H"
    using assms by (simp_all add: zip_image_proper)
  show "cofactor a b c d = Inr (cof_image a b c d)"
    using binaryOp_proper [OF assms(1,2), of fmul] binaryOp_proper [OF assms(3,4), of fmul]
      binaryOp_proper [OF p, of fsub]
    by (simp add: cofactor_def cof_image_def lift2_def image_mul_def image_sub_def)
  show "proper_image (cof_image a b c d) W H"
    using p by (simp add: cof_image_def zip_image_proper)
qed

lemma GuidedFilterValues_init_proper:
  assumes g: "proper_image guide W H"
  shows "GuidedFilterValues_init guide r eps = Inr (init_values guide r eps)"
    and "proper_values (init_values guide r eps) W H"
proof -
  let ?rad = "Suc (r * 2)"
  let ?Ir = "channel red guide" and ?Ig = "channel green guide" and ?Ib = "channel blue guide"
  let ?mr = "boxFilter ?Ir ?rad" and ?mg = "boxFilter ?Ig ?rad" and ?mb = "boxFilter ?Ib ?rad"
  let ?vrr = "image_add_scalar (cov_image ?rad ?Ir ?Ir ?mr ?mr) eps"
  let ?vrg = "cov_image ?rad ?Ir ?Ig ?mr ?mg"
  let ?vrb = "cov_image ?rad ?Ir ?Ib ?mr ?mb"
  let ?vgg = "image_add_scalar (cov_image ?rad ?Ig ?Ig ?mg ?mg) eps"
  let ?vgb = "cov_image ?rad ?Ig ?Ib ?mg ?mb"
  let ?vbb = "image_add_scalar (cov_image ?rad ?Ib ?Ib ?mb ?mb) eps"
  have I: "proper_image ?Ir W H" "proper_image ?Ig W H" "proper_image ?Ib W H"
    using g by (simp_all add: channel_proper)
  have m: "proper_image ?mr W H" "proper_image ?mg W H" "proper_image ?mb W H"
    using I by (simp_all add: boxFilter_proper)
  note c_rr = covariance_proper [OF I(1) I(1) m(1) m(1), of ?rad]
  note c_rg = covariance_proper [OF I(1) I(2) m(1) m(2), of ?rad]
  note c_rb = covariance_proper [OF I(1) I(3) m(1) m(3), of ?rad]
  note c_gg = covariance_proper [OF I(2) I(2) m(2) m(2), of ?rad]
  note c_gb = covariance_proper [OF I(2) I(3) m(2) m(3), of ?rad]
  note c_bb = covariance_proper [OF I(3) I(3) m(3) m(3), of ?rad]
  have v: "proper_image ?vrr W H" "proper_image ?vrg W H" "proper_image ?vrb W H"
    "proper_image ?vgg W H" "proper_image ?vgb W H" "proper_image ?vbb W H"
    using c_rr(2) c_rg(2) c_rb(2) c_gg(2) c_gb(2) c_bb(2)
    by (simp_all add: image_add_scalar_proper)
  note f_rr = cofactor_proper [OF v(4) v(6) v(5) v(5)]
  note f_rg = cofactor_proper [OF v(5) v(3) v(2) v(6)]
  note f_rb = cofactor_proper [OF v(2) v(5) v(4) v(3)]
  note f_gg = cofactor_proper [OF v(1) v(6) v(3) v(3)]
  note f_gb = cofactor_proper [OF v(3) v(2) v(1) v(5)]
  note f_bb = cofactor_proper [OF v(1) v(4) v(2) v(2)]
  show "GuidedFilterValues_init guide r eps = Inr (init_values guide r eps)"
    by (simp add: GuidedFilterValues_init_def init_values_def Let_def and_then_def lift1_def
        splitChannels_proper [OF g] c_rr(1) c_rg(1) c_rb(1) c_gg(1) c_gb(1) c_bb(1)
        f_rr(1) f_rg(1) f_rb(1) f_gg(1) f_gb(1) f_bb(1))
  show "proper_values (init_values guide r eps) W H"
    using v f_rr(2) f_rg(2) f_rb(2) f_gg(2) f_gb(2) f_bb(2)
    by (simp add: proper_values_def init_values_def Let_def)
qed

lemma covDet_proper:
  assumes "proper_values v W H"
  shows "covDet v = Inr (det_image v)" and "proper_image (det_image v) W H"
proof -
  have p: "proper_image (invrr v) W H" "proper_image (var_I_rr v) W H"
    "proper_image (invrg v) W H" "proper_image (var_I_rg v) W H"
    "proper_image (invrb v) W H" "proper_image (var_I_rb v) W H"
    using assms by (simp_all add: proper_values_def)
  have q: "proper_image (zip_image fmul (invrr v) (var_I_rr v)) W H"
    "proper_image (zip_image fmul (invrg v) (var_I_rg v)) W H"
    "proper_image (zip_image fmul (invrb v) (var_I_rb v)) W H"
    using p by (simp_all add: zip_image_proper)
  have s: "proper_image (zip_image fadd (zip_image fmul (invrr v) (var_I_rr v))
                                        (zip_image fmul (invrg v) (var_I_rg v))) W H"
    using q by (simp add: zip_image_proper)
  show "covDet v = Inr (det_image v)"
    using binaryOp_proper [OF p(1,2), of fmul] binaryOp_proper [OF p(3,4), of fmul]
      binaryOp_proper [OF p(5,6), of fmul] binaryOp_proper [OF q(1,2), of fadd]
      binaryOp_proper [OF s q(3), of fadd]
    by (simp add: covDet_def det_image_def lift2_def image_mul_def image_add_def)
  show "proper_image (det_image v) W H"
    using s q(3) by (simp add: det_image_def zip_image_proper)
qed

lemma divide_by_covDet_proper:
  assumes "proper_values v W H" "proper_image d W H"
  shows "divide_by_covDet v d = Inr (divided v d)"
proof -
  have p: "proper_image (invrr v) W H" "proper_image (invrg v) W H" "proper_image (invrb v) W H"
    "proper_image (invgg v) W H" "proper_image (invgb v) W H" "proper_image (invbb v) W H"
    using assms(1) by (simp_all add: proper_values_def)
  show ?thesis
    using binaryAssignmentOp_proper [OF p(1) assms(2), of fdiv]
      binaryAssignmentOp_proper [OF p(2) assms(2), of fdiv]
      binaryAssignmentOp_proper [OF p(3) assms(2), of fdiv]
      binaryAssignmentOp_proper [OF p(4) assms(2), of fdiv]
      binaryAssignmentOp_proper [OF p(5) assms(2), of fdiv]
      binaryAssignmentOp_proper [OF p(6) assms(2), of fdiv]
    by (simp add: divide_by_covDet_def divided_def and_then_def image_div_assign_def)
qed

lemma GuidedFilterValues_proper:
  assumes "proper_image guide W H"
  shows "GuidedFilterValues guide r eps
           = Inr (divided (init_values guide r eps) (det_image (init_values guide r eps)))"
  using GuidedFilterValues_init_proper [OF assms, of r eps]
    covDet_proper [OF GuidedFilterValues_init_proper(2) [OF assms, of r eps]]
    divide_by_covDet_proper [OF GuidedFilterValues_init_proper(2) [OF assms, of r eps]
      covDet_proper(2) [OF GuidedFilterValues_init_proper(2) [OF assms, of r eps]]]
  by (simp add: GuidedFilterValues_def and_then_def)

lemma zip_image_nth:
  "i < length (m_data l) \<Longrightarrow> i < length (m_data r) \<Longrightarrow>
   m_data (zip_image op l r) ! i = op (m_data l ! i) (m_data r ! i)"
  by (simp add: zip_image_def)

lemma boxFilter_one_pixel:
  "boxFilter \<lparr>m_width = 1, m_height = 1, m_data = [Fin x]\<rparr> (Suc 0)
     = \<lparr>m_width = 1, m_height = 1, m_data = [Fin x]\<rparr>"
  using boxFilter_one [of "\<lparr>m_width = 1, m_height = 1, m_data = [Fin x]\<rparr>" 1 1 "[x]"]
  by simp

lemma divided_zero_det:
  assumes "proper_values v W H" "proper_image d W H" "i < W * H" "m_data d ! i = Fin 0"
  shows "\<not> is_finite (m_data (invrr (divided v d)) ! i) \<and>
         \<not> is_finite (m_data (invrg (divided v d)) ! i) \<and>
         \<not> is_finite (m_data (invrb (divided v d)) ! i) \<and>
         \<not> is_finite (m_data (invgg (divided v d)) ! i) \<and>
         \<not> is_finite (m_data (invgb (divided v d)) ! i) \<and>
         \<not> is_finite (m_data (invbb (divided v d)) ! i)"
  using assms
  by (simp add: divided_def proper_values_def proper_image_def zip_image_nth
      fdiv_zero_not_finite)

text \<open>
  Claim C7, as amended. Neither degenerate input is guarded; no error is raised and the
  caller receives non-finite pixels. Normalising a flat image, whose pixels all equal one
  value \<open>c\<close> of the normalised range of floats (\<open>FLT_MIN \<le> c \<le> FLT_MAX\<close>), returns the image
  with every pixel \<open>NaN\<close>. The constructor of \<open>GuidedFilterValues\<close> returns normally on every
  guide image with at least one pixel, for every radius and every \<open>eps\<close>, and wherever the
  determinant of the regularised covariance matrix is zero, the six entries of the inverse
  are not finite.
\<close>

theorem degenerate_input_not_guarded:
  "(0 < n \<and> FLT_MIN \<le> c \<and> c \<le> FLT_MAX \<and> m_data img = replicate n (Fin c) \<longrightarrow>
      normalise img = img\<lparr>m_data := replicate n NaN\<rparr>) \<and>
   (proper_image guide W H \<longrightarrow>
      (\<exists>v0 d v. GuidedFilterValues_init guide r eps = Inr v0 \<and> covDet v0 = Inr d \<and>
                GuidedFilterValues guide r eps = Inr v \<and>
                (\<forall>i < W * H. m_data d ! i = Fin 0 \<longrightarrow>
                   \<not> is_finite (m_data (invrr v) ! i) \<and> \<not> is_finite (m_data (invrg v) ! i) \<and>
                   \<not> is_finite (m_data (invrb v) ! i) \<and> \<not> is_finite (m_data (invgg v) ! i) \<and>
                   \<not> is_finite (m_data (invgb v) ! i) \<and> \<not> is_finite (m_data (invbb v) ! i))))"
proof (intro conjI impI)
  assume "0 < n \<and> FLT_MIN \<le> c \<and> c \<le> FLT_MAX \<and> m_data img = replicate n (Fin c)"
  then show "normalise img = img\<lparr>m_data := replicate n NaN\<rparr>"
    by (intro normalise_flat) simp_all
next
  assume g: "proper_image guide W H"
  let ?v0 = "init_values guide r eps"
  let ?d = "det_image ?v0"
  note i = GuidedFilterValues_init_proper [OF g, of r eps]
  note c = covDet_proper [OF i(2)]
  have "\<forall>i < W * H. m_data ?d ! i = Fin 0 \<longrightarrow>
          \<not> is_finite (m_data (invrr (divided ?v0 ?d)) ! i) \<and>
          \<not> is_finite (m_data (invrg (divided ?v0 ?d)) ! i) \<and>
          \<not> is_finite (m_data (invrb (divided ?v0 ?d)) ! i) \<and>
          \<not> is_finite (m_data (invgg (divided ?v0 ?d)) ! i) \<and>
          \<not> is_finite (m_data (invgb (divided ?v0 ?d)) ! i) \<and>
          \<not> is_finite (m_data (invbb (divided ?v0 ?d)) ! i)"
    using divided_zero_det [OF i(2) c(2)] by blast
  then show "\<exists>v0 d v. GuidedFilterValues_init guide r eps = Inr v0 \<and> covDet v0 = Inr d \<and>
                GuidedFilterValues guide r eps = Inr v \<and>
                (\<forall>i < W * H. m_data d ! i = Fin 0 \<longrightarrow>
                   \<not> is_finite (m_data (invrr v) ! i) \<and> \<not> is_finite (m_data (invrg v) ! i) \<and>
                   \<not> is_finite (m_data (invrb v) ! i) \<and> \<not> is_finite (m_data (invgg v) ! i) \<and>
                   \<not> is_finite (m_data (invgb v) ! i) \<and> \<not> is_finite (m_data (invbb v) ! i))"
    using i(1) c(1) GuidedFilterValues_proper [OF g, of r eps] by blast
qed

lemma one_pixel_guide:
  "proper_image \<lparr>m_width = 1, m_height = 1, m_data = [Pixel (Fin (1/2)) (Fin (1/2)) (Fin (1/2))]\<rparr> 1 1"
  by (simp add: proper_image_def)

lemma one_pixel_det:
  "m_data (det_image (init_values
      \<lparr>m_width = 1, m_height = 1, m_data = [Pixel (Fin (1/2)) (Fin (1/2)) (Fin (1/2))]\<rparr> 0 (Fin 0)))
     = [Fin 0]"
  by (simp add: init_values_def Let_def channel_def cov_image_def cof_image_def zip_image_def
      image_add_scalar_def scalarOp_def det_image_def boxFilter_one_pixel)

theorem degenerate_input_not_guarded_witness:
  "normalise \<lparr>m_width = 2, m_height = 1, m_data = replicate 2 (Fin (1 / 2))\<rparr>
     = \<lparr>m_width = 2, m_height = 1, m_data = replicate 2 NaN\<rparr> \<and>
   (\<exists>v. GuidedFilterValues
           \<lparr>m_width = 1, m_height = 1, m_data = [Pixel (Fin (1/2)) (Fin (1/2)) (Fin (1/2))]\<rparr>
           0 (Fin 0) = Inr v \<and>
        \<not> is_finite (m_data (invrr v) ! 0) \<and> \<not> is_finite (m_data (invbb v) ! 0))"
proof -
  let ?g = "\<lparr>m_width = 1, m_height = 1, m_data = [Pixel (Fin (1/2)) (Fin (1/2)) (Fin (1/2))]\<rparr>"
  note t = degenerate_input_not_guarded
             [of 2 "1 / 2" "\<lparr>m_width = 2, m_height = 1, m_data = replicate 2 (Fin (1 / 2))\<rparr>"
                 ?g 1 1 0 "Fin 0"]
  have b: "FLT_MIN \<le> 1 / 2" "1 / 2 \<le> FLT_MAX" by (simp_all add: FLT_MIN_def FLT_MAX_def)
  from t b have n: "normalise \<lparr>m_width = 2, m_height = 1, m_data = replicate 2 (Fin (1 / 2))\<rparr>
     = \<lparr>m_width = 2, m_height = 1, m_data = replicate 2 NaN\<rparr>"
    by simp
  from t one_pixel_guide obtain v0 d v where
    i: "GuidedFilterValues_init ?g 0 (Fin 0) = Inr v0" and c: "covDet v0 = Inr d"
    and v: "GuidedFilterValues ?g 0 (Fin 0) = Inr v"
    and z: "\<forall>i < 1 * 1. m_data d ! i = Fin 0 \<longrightarrow>
              \<not> is_finite (m_data (invrr v) ! i) \<and> \<not> is_finite (m_data (invrg v) ! i) \<and>
              \<not> is_finite (m_data (invrb v) ! i) \<and> \<not> is_finite (m_data (invgg v) ! i) \<and>
              \<not> is_finite (m_data (invgb v) ! i) \<and> \<not> is_finite (m_data (invbb v) ! i)"
    by blast
  note p = GuidedFilterValues_init_proper [OF one_pixel_guide, of 0 "Fin 0"]
  have "v0 = init_values ?g 0 (Fin 0)" using i p(1) by simp
  then have "d = det_image (init_values ?g 0 (Fin 0))"
    using c covDet_proper(1) [OF p(2)] by simp
  then have "m_data d ! 0 = Fin 0" by (simp add: one_pixel_det)
  then have "\<not> is_finite (m_data (invrr v) ! 0) \<and> \<not> is_finite (m_data (invbb v) ! 0)"
    using z by simp
  then show ?thesis using n v by blast
qed

text \<open>The claim as it is stated fails: normalising the flat image of two pixels 1/2 returns
  normally, with two \<open>NaN\<close> pixels.\<close>

theorem normalise_flat_counterexample:
  "normalise \<lparr>m_width = 2, m_height = 1, m_data = [Fin (1 / 2), Fin (1 / 2)]\<rparr>
     = \<lparr>m_width = 2, m_height = 1, m_data = [NaN, NaN]\<rparr>"
proof -
  have "FLT_MIN \<le> 1 / 2" "1 / 2 \<le> FLT_MAX" by (simp_all add: FLT_MIN_def FLT_MAX_def)
  then show ?thesis
    using normalise_flat [of 2 "1 / 2" "\<lparr>m_width = 2, m_height = 1, m_data = [Fin (1 / 2), Fin (1 / 2)]\<rparr>"]
    by (simp add: numeral_2_eq_2)
qed

section \<open>The depth map\<close>

lemma fold_list_update_upt:
  "n \<le> length d \<Longrightarrow> fold (\<lambda>i d. d[i := f i]) [0..<n] d = map f [0..<n] @ drop n d"
proof (induction n)
  case 0
  show ?case by simp
next
  case (Suc n)
  then have n: "n < length d" by simp
  have "(map f [0..<n] @ drop n d)[n := f n] = map f [0..<n] @ (drop n d)[0 := f n]"
    by (simp add: list_update_append)
  also have "(drop n d)[0 := f n] = f n # drop (Suc n) d"
    using n by (metis Cons_nth_drop_Suc list_update_code(2))
  finally show ?case using Suc n by simp
qed

lemma image_loop_data:
  assumes p: "proper_image img W H"
  shows "fold (\<lambda>coord im. set_pixel im coord (g coord)) (image_coords W H) img
           = img\<lparr>m_data := map g (image_coords W H)\<rparr>"
proof -
  let ?c = "\<lambda>k. (int (k mod W), int (k div W))"
  let ?res = "fold (\<lambda>coord im. set_pixel im coord (g coord)) (image_coords W H) img"
  have len: "length (m_data img) = W * H" using p by (simp add: proper_image_def)
  have "m_data ?res = fold (\<lambda>coord d. d[nat (getIndex img coord) := g coord])
                        (image_coords W H) (m_data img)"
    using set_pixel_fold_data [of "\<lambda>c. c" g "image_coords W H" img] by simp
  also have "\<dots> = fold (\<lambda>k d. d[nat (getIndex img (?c k)) := g (?c k)]) [0..<W * H] (m_data img)"
    by (simp add: image_coords_def fold_map comp_def)
  also have "\<dots> = fold (\<lambda>k d. d[k := g (?c k)]) [0..<W * H] (m_data img)"
    by (rule fold_cong) (simp_all add: getIndex_image_coords [OF p])
  also have "\<dots> = map (\<lambda>k. g (?c k)) [0..<W * H] @ drop (W * H) (m_data img)"
    by (rule fold_list_update_upt) (simp add: len)
  also have "\<dots> = map g (image_coords W H)"
    by (simp add: len image_coords_def comp_def)
  finally have "m_data ?res = map g (image_coords W H)" .
  then show ?thesis
    using set_pixel_fold_width [of "\<lambda>c. c" g "image_coords W H" img]
      set_pixel_fold_height [of "\<lambda>c. c" g "image_coords W H" img]
    by (intro image_eqI) simp_all
qed

lemma BaseImage_dims_proper:
  assumes "W * H < 2 ^ 31"
  shows "BaseImage_dims (int W) (int H)
           = Inr \<lparr>m_width = int W, m_height = int H, m_data = replicate (W * H) 0\<rparr>"
  by (simp add: BaseImage_dims_def coord_int_product [OF assms] not_less mult_nonneg_nonneg)

lemma attenuation_prior_proper:
  assumes p: "proper_image img W H"
  shows "attenuation_prior img
           = Inr \<lparr>m_width = int W, m_height = int H, m_data = map pixel_depth (m_data img)\<rparr>"
proof -
  let ?z = "\<lparr>m_width = int W, m_height = int H, m_data = replicate (W * H) (0::flt)\<rparr>"
  have z: "proper_image ?z W H" using p by (simp add: proper_image_def)
  have d: "BaseImage_dims (m_width img) (m_height img) = Inr ?z"
    using p BaseImage_dims_proper [of W H] by (simp add: proper_image_def)
  have "map (\<lambda>coord. pixel_depth (pixel_at img coord)) (image_coords W H)
          = map pixel_depth (map (pixel_at img) (image_coords W H))"
    by simp
  also have "\<dots> = map pixel_depth (m_data img)"
    by (simp only: pixel_at_image_coords [OF p])
  finally show ?thesis
    by (simp add: attenuation_prior_def d forView_proper [OF p] image_loop_data [OF z])
qed

lemma forView_window:
  "forView (centredSubView view coord (int k) (int k)) = Inr (window_coords view coord k)"
proof (cases "k = 0")
  case True
  then show ?thesis
    by (simp add: window_coords_def forView_empty centredSubView_def subView_def ImageView_def)
next
  case False
  let ?v = "centredSubView view coord (int k) (int k)"
  have w: "view_width ?v = int k" "view_height ?v = int k"
    by (simp_all add: centredSubView_def subView_def ImageView_def)
  have "0 < view_width ?v" "0 \<le> view_height ?v" using False by (simp_all add: w)
  from forView_row_major [OF this] show ?thesis
    by (simp add: window_coords_def w nat_mult_distrib)
qed

lemma min_filter_loop_eq:
  "min_filter_loop tmp view (int k) coords result
     = Inr (fold (\<lambda>coord im. set_pixel im coord (window_min tmp (window_coords view coord k)))
              coords result)"
  by (induction coords arbitrary: result) (simp_all add: forView_window)

lemma min_filter_proper:
  assumes p: "proper_image result W H" and k: "k < 2 ^ 31"
  shows "min_filter result k
           = Inr (result\<lparr>m_data := map (\<lambda>coord. window_min result
                                                      (window_coords (getView result) coord k))
                                        (image_coords W H)\<rparr>)"
  by (simp add: min_filter_def Let_def forView_proper [OF p] coord_int_nat [OF k]
      min_filter_loop_eq image_loop_data [OF p])

lemma depth_before_normalise_proper:
  assumes p: "proper_image img W H" and k: "k < 2 ^ 31"
  shows "depth_before_normalise img k
           = Inr \<lparr>m_width = int W, m_height = int H,
                  m_data = map (\<lambda>coord. window_min
                     \<lparr>m_width = int W, m_height = int H, m_data = map pixel_depth (m_data img)\<rparr>
                     (window_coords \<lparr>view_offset = (0, 0), view_width = int W, view_height = int H\<rparr>
                        coord k))
                    (image_coords W H)\<rparr>"
proof -
  let ?t = "\<lparr>m_width = int W, m_height = int H, m_data = map pixel_depth (m_data img)\<rparr>"
  have t: "proper_image ?t W H" using p by (simp add: proper_image_def)
  show ?thesis
    by (simp add: depth_before_normalise_def attenuation_prior_proper [OF p]
        min_filter_proper [OF t k] getView_proper [OF t])
qed

lemma clampf_unit: "clampf x (Fin 0) (Fin 1) = NaN \<or> unit_value (clampf x (Fin 0) (Fin 1))"
  by (cases x) (simp_all add: clampf_def fmin_def fmax_def unit_value_def)

lemma pixel_depth_clamped: "pixel_depth p = NaN \<or> unit_value (pixel_depth p)"
  unfolding pixel_depth_def by (rule clampf_unit)

lemma fmin_unit:
  assumes "unit_value m" "v = NaN \<or> unit_value v"
  shows "unit_value (fmin m v)"
  using assms by (auto simp: unit_value_def fmin_def)

lemma window_fold_unit:
  assumes "\<And>c. pixel_at tmp c = NaN \<or> unit_value (pixel_at tmp c)" "unit_value m"
  shows "unit_value (fold (\<lambda>subCoord m. fmin m (pixel_at tmp subCoord)) cs m)"
  using assms(2)
proof (induction cs arbitrary: m)
  case Nil
  then show ?case by simp
next
  case (Cons c cs)
  then show ?case using assms(1) [of c] by (simp add: fmin_unit)
qed

lemma window_min_unit:
  assumes "\<And>c. pixel_at tmp c = NaN \<or> unit_value (pixel_at tmp c)"
  shows "unit_value (window_min tmp cs)"
  unfolding window_min_def
  by (rule window_fold_unit [OF assms]) (simp add: unit_value_def)

lemma getIndex_bound:
  assumes "proper_image img W H"
  shows "nat (getIndex img c) < W * H"
proof -
  let ?x = "clamp (fst c) 0 (int W - 1)" and ?y = "clamp (snd c) 0 (int H - 1)"
  have W: "0 < W" and H: "0 < H" using assms by (simp_all add: proper_image_def)
  have x: "0 \<le> ?x" "?x \<le> int W - 1" and y: "0 \<le> ?y" "?y \<le> int H - 1"
    using W H by (simp_all add: clamp_def)
  have "?y * int W \<le> (int H - 1) * int W" using y(2) by (intro mult_right_mono) simp_all
  then have "?y * int W + ?x \<le> (int H - 1) * int W + (int W - 1)" using x(2) by simp
  also have "\<dots> = int (W * H) - 1" by (simp add: algebra_simps)
  finally have "?y * int W + ?x < int (W * H)" by simp
  moreover have "0 \<le> ?y * int W + ?x" using x(1) y(1) by simp
  moreover have "getIndex img c = ?y * int W + ?x"
    using assms by (simp add: getIndex_def getIndexUnsafe_def proper_image_def)
  ultimately show ?thesis by (simp only: nat_less_iff)
qed

lemma pixel_at_in_data:
  assumes "proper_image img W H"
  shows "pixel_at img c \<in> set (m_data img)"
  using getIndex_bound [OF assms, of c] assms
  by (simp add: pixel_at_def proper_image_def)

text \<open>Whatever the windows are, every pixel that the loop of the minimum filter has
  written is a value of \<open>[0, 1]\<close>.\<close>

lemma min_filter_loop_unit:
  assumes c: "\<And>cs. unit_value (window_min tmp cs)"
  shows "min_filter_loop tmp view ks coords result = Inr r \<Longrightarrow>
         m_width r = m_width result \<and> m_height r = m_height result \<and>
         length (m_data r) = length (m_data result) \<and>
         (\<forall>i < length (m_data result).
            unit_value (m_data result ! i) \<or> i \<in> (\<lambda>c. nat (getIndex result c)) ` set coords
              \<longrightarrow> unit_value (m_data r ! i))"
proof (induction coords arbitrary: result)
  case Nil
  then show ?case by simp
next
  case (Cons coord coords)
  from Cons.prems obtain subCoords where
    r: "min_filter_loop tmp view ks coords (set_pixel result coord (window_min tmp subCoords))
          = Inr r"
    by (auto split: sum.splits)
  let ?res = "set_pixel result coord (window_min tmp subCoords)"
  note ih = Cons.IH [OF r]
  have d: "m_width ?res = m_width result" "m_height ?res = m_height result"
    "length (m_data ?res) = length (m_data result)"
    by (simp_all add: set_pixel_def)
  have g: "getIndex ?res c' = getIndex result c'" for c'
    by (simp add: getIndex_def getIndexUnsafe_def d)
  have u: "unit_value (m_data r ! i)"
    if i: "i < length (m_data result)"
      and h: "unit_value (m_data result ! i)
                \<or> i \<in> (\<lambda>c. nat (getIndex result c)) ` set (coord # coords)"
    for i
  proof -
    have "unit_value (m_data ?res ! i) \<or> i \<in> (\<lambda>c. nat (getIndex ?res c)) ` set coords"
    proof (cases "i = nat (getIndex result coord)")
      case True
      then have "m_data ?res ! i = window_min tmp subCoords"
        using i by (simp add: set_pixel_def)
      then show ?thesis using c by simp
    next
      case False
      then have "m_data ?res ! i = m_data result ! i" by (simp add: set_pixel_def)
      then show ?thesis using h False by (auto simp: g)
    qed
    then show ?thesis using ih i d by auto
  qed
  have "m_width r = m_width result" "m_height r = m_height result"
    "length (m_data r) = length (m_data result)"
    using ih d by simp_all
  then show ?case using u by blast
qed

lemma depth_before_normalise_unit:
  assumes p: "proper_image img W H" and d: "depth_before_normalise img k = Inr pre"
  shows "m_width pre = int W \<and> m_height pre = int H \<and> length (m_data pre) = W * H \<and>
         (\<forall>v \<in> set (m_data pre). unit_value v)"
proof -
  let ?t = "\<lparr>m_width = int W, m_height = int H, m_data = map pixel_depth (m_data img)\<rparr>"
  have t: "proper_image ?t W H" using p by (simp add: proper_image_def)
  have len: "length (m_data ?t) = W * H" using p by (simp add: proper_image_def)
  have c: "pixel_at ?t c = NaN \<or> unit_value (pixel_at ?t c)" for c
  proof -
    from pixel_at_in_data [OF t, of c] obtain x where "pixel_at ?t c = pixel_depth x" by auto
    then show ?thesis using pixel_depth_clamped [of x] by simp
  qed
  have w: "unit_value (window_min ?t cs)" for cs
    by (rule window_min_unit) (rule c)
  have "min_filter ?t k = Inr pre"
    using d by (simp add: depth_before_normalise_def attenuation_prior_proper [OF p])
  then have "min_filter_loop ?t (getView ?t) (coord_int (int k)) (image_coords W H) ?t = Inr pre"
    by (simp add: min_filter_def Let_def forView_proper [OF t])
  note l = min_filter_loop_unit [OF w this]
  have "unit_value (m_data pre ! i)" if i: "i < W * H" for i
  proof -
    have "image_coords W H ! i = (int (i mod W), int (i div W))"
      and "i < length (image_coords W H)"
      using i by (simp_all add: image_coords_def)
    then have m: "(int (i mod W), int (i div W)) \<in> set (image_coords W H)"
      by (metis nth_mem)
    have "nat (getIndex ?t (int (i mod W), int (i div W)))
            \<in> (\<lambda>c. nat (getIndex ?t c)) ` set (image_coords W H)"
      using m by (rule imageI)
    then have "i \<in> (\<lambda>c. nat (getIndex ?t c)) ` set (image_coords W H)"
      by (simp only: getIndex_image_coords [OF t i])
    then show ?thesis using l i len by simp
  qed
  moreover have "length (m_data pre) = W * H" using l len by simp
  ultimately have "\<forall>v \<in> set (m_data pre). unit_value v"
    by (auto simp: in_set_conv_nth)
  then show ?thesis using l len by simp
qed

lemma unit_values_Fin:
  assumes "\<forall>v \<in> set vs. unit_value v"
  shows "vs = map Fin (map fin_val vs)" and "\<forall>a \<in> set (map fin_val vs). 0 \<le> a \<and> a \<le> 1"
proof -
  have "v = Fin (fin_val v) \<and> 0 \<le> fin_val v \<and> fin_val v \<le> 1" if "v \<in> set vs" for v
    using assms that by (auto simp: unit_value_def)
  then show "vs = map Fin (map fin_val vs)" and "\<forall>a \<in> set (map fin_val vs). 0 \<le> a \<and> a \<le> 1"
    by (auto intro!: nth_equalityI)
qed

text \<open>
  Claim C6. For every image with at least one pixel whose depth map before normalisation
  \<open>pre\<close> holds two distinct values, \<open>getDepthFromHazyImage\<close> returns a depth map of the same
  dimensions, every pixel of which is a finite value of \<open>[0, 1]\<close>, exactly 0 where \<open>pre\<close> attains
  its minimum and exactly 1 where \<open>pre\<close> attains its maximum. The pixels of the input may be
  any floats, non-finite ones included. The hypothesis \<open>gran\<close> is the granularity of the
  single-precision floats, which exact arithmetic does not have: no depth lies strictly
  between 0 and the smallest positive normalised float. (The depth is a sum that begins
  with 0.121779, and a positive float result of it is many orders of magnitude above
  \<open>FLT_MIN\<close>.) It is needed because the running maximum of \<open>normalise\<close> starts at
  \<^verbatim>\<open>std::numeric_limits<float>::min()\<close>, the smallest positive float.
\<close>

theorem depth_normalised:
  assumes p: "proper_image img W H"
    and d: "depth_before_normalise img k = Inr pre"
    and two: "\<exists>i < W * H. \<exists>j < W * H. m_data pre ! i \<noteq> m_data pre ! j"
    and gran: "\<forall>i < W * H. \<not> (fless (Fin 0) (m_data pre ! i) \<and> fless (m_data pre ! i) (Fin FLT_MIN))"
  shows "\<exists>out. getDepthFromHazyImage img k = Inr out \<and>
           m_width out = int W \<and> m_height out = int H \<and> length (m_data out) = W * H \<and>
           (\<forall>i < W * H.
              (\<exists>a. m_data out ! i = Fin a \<and> 0 \<le> a \<and> a \<le> 1) \<and>
              ((\<forall>j < W * H. \<not> fless (m_data pre ! j) (m_data pre ! i)) \<longrightarrow> m_data out ! i = Fin 0) \<and>
              ((\<forall>j < W * H. \<not> fless (m_data pre ! i) (m_data pre ! j)) \<longrightarrow> m_data out ! i = Fin 1))"
proof -
  note u = depth_before_normalise_unit [OF p d]
  let ?rs = "map fin_val (m_data pre)"
  let ?lo = "Min (set ?rs)" and ?hi = "Max (set ?rs)"
  have len: "length ?rs = W * H" using u by simp
  have data: "m_data pre = map Fin ?rs" and range: "\<forall>a \<in> set ?rs. 0 \<le> a \<and> a \<le> 1"
    using unit_values_Fin [of "m_data pre"] u by blast+
  have nth: "m_data pre ! i = Fin (?rs ! i)" if "i < W * H" for i
    using that len by (subst data) (simp del: map_map)
  from two obtain i j where ij: "i < W * H" "j < W * H" "m_data pre ! i \<noteq> m_data pre ! j"
    by blast
  then have ne: "?rs \<noteq> []" using len by auto
  have mem: "?rs ! i \<in> set ?rs" if "i < W * H" for i using that len by (simp del: map_map)
  have lo_le: "?lo \<le> ?rs ! i" and le_hi: "?rs ! i \<le> ?hi" if "i < W * H" for i
    using mem [OF that] by simp_all
  have "?rs ! i \<noteq> ?rs ! j" using ij nth by auto
  then have lt: "?lo < ?hi"
    using lo_le [OF ij(1)] le_hi [OF ij(1)] lo_le [OF ij(2)] le_hi [OF ij(2)] by linarith
  have "?hi \<in> set ?rs" using ne by (intro Max_in) simp_all
  then obtain m where m: "m < W * H" "?rs ! m = ?hi" using len by (metis in_set_conv_nth)
  have "0 \<le> ?lo" using range ne by (meson List.finite_set Min_in set_empty)
  then have "0 < ?hi" using lt by simp
  then have big: "FLT_MIN \<le> ?hi" using gran m nth [OF m(1)] by (auto simp: not_less)
  let ?out = "pre\<lparr>m_data := map (\<lambda>p. Fin ((p - ?lo) / (?hi - ?lo))) ?rs\<rparr>"
  have n: "normalise pre = ?out"
    by (rule normalise_unit_range [OF data range ne lt big])
  have g: "getDepthFromHazyImage img k = Inr ?out"
    by (simp add: getDepthFromHazyImage_def lift1_def d n)
  have o: "m_data ?out ! i = Fin ((?rs ! i - ?lo) / (?hi - ?lo))" if "i < W * H" for i
    using that len by (simp del: map_map)
  have each: "(\<exists>a. m_data ?out ! i = Fin a \<and> 0 \<le> a \<and> a \<le> 1) \<and>
        ((\<forall>j < W * H. \<not> fless (m_data pre ! j) (m_data pre ! i)) \<longrightarrow> m_data ?out ! i = Fin 0) \<and>
        ((\<forall>j < W * H. \<not> fless (m_data pre ! i) (m_data pre ! j)) \<longrightarrow> m_data ?out ! i = Fin 1)"
    if i: "i < W * H" for i
  proof (intro conjI impI)
    have "0 \<le> (?rs ! i - ?lo) / (?hi - ?lo)" using lo_le [OF i] lt by simp
    moreover have "(?rs ! i - ?lo) / (?hi - ?lo) \<le> 1" using le_hi [OF i] lt by simp
    ultimately show "\<exists>a. m_data ?out ! i = Fin a \<and> 0 \<le> a \<and> a \<le> 1" using o [OF i] by blast
  next
    assume a: "\<forall>j < W * H. \<not> fless (m_data pre ! j) (m_data pre ! i)"
    have "?lo \<in> set ?rs" using ne by (intro Min_in) simp_all
    then obtain j where j: "j < W * H" "?rs ! j = ?lo" using len by (metis in_set_conv_nth)
    then have "\<not> ?rs ! j < ?rs ! i" using a nth [OF j(1)] nth [OF i] by auto
    then have "?rs ! i = ?lo" using j(2) lo_le [OF i] by simp
    then show "m_data ?out ! i = Fin 0" using o [OF i] by simp
  next
    assume a: "\<forall>j < W * H. \<not> fless (m_data pre ! i) (m_data pre ! j)"
    have "\<not> ?rs ! i < ?rs ! m" using a nth [OF m(1)] nth [OF i] m(1) by auto
    then have "?rs ! i = ?hi" using m(2) le_hi [OF i] by simp
    then show "m_data ?out ! i = Fin 1" using o [OF i] lt by simp
  qed
  have dims: "m_width ?out = int W" "m_height ?out = int H" "length (m_data ?out) = W * H"
    using u len by simp_all
  show ?thesis
  proof (intro exI [of _ ?out] conjI allI impI)
    show "getDepthFromHazyImage img k = Inr ?out" by (rule g)
  qed (use dims each in blast)+
qed

lemma grey_depth:
  assumes "0 < v"
  shows "pixel_depth (Pixel (Fin v) (Fin v) (Fin v))
           = Fin (min (max (0.121779 + v * 0.959710) 0) 1)"
proof -
  have l: "getLuminance (Pixel (Fin v) (Fin v) (Fin v)) = Fin v"
    by (simp add: getLuminance_def algebra_simps)
  have s: "getSaturation (Pixel (Fin v) (Fin v) (Fin v)) = Fin 0"
    using assms by (simp add: getSaturation_def l Let_def)
  show ?thesis
    by (simp add: pixel_depth_def l s clampf_def theta0_def theta1_def theta2_def)
qed

lemma depth_example:
  "depth_before_normalise
     \<lparr>m_width = 5, m_height = 1,
      m_data = [grey (1/2), grey (1/2), grey (1/10), grey (9/10), grey (9/10)]\<rparr> 3
   = Inr \<lparr>m_width = 5, m_height = 1,
          m_data = [Fin (871/4000), Fin (871/4000), Fin (871/4000),
                    Fin (871/4000), Fin (492759/500000)]\<rparr>"
proof -
  let ?img = "\<lparr>m_width = 5, m_height = 1,
      m_data = [grey (1/2), grey (1/2), grey (1/10), grey (9/10), grey (9/10)]\<rparr>"
  have p: "proper_image ?img 5 1" by (simp add: proper_image_def)
  have k: "(3::nat) < 2 ^ 31" by simp
  show ?thesis
    by (subst depth_before_normalise_proper [OF p k])
       (simp add: grey_def grey_depth image_coords_def
        window_coords_def window_min_def row_major_def centredSubView_def subView_def
        ImageView_def coord_add_def coord_sub_def c_div_def pixel_at_def getIndex_def
        getIndexUnsafe_def clamp_def upt_conv_Cons)
qed

lemma prior_example:
  "attenuation_prior
     \<lparr>m_width = 5, m_height = 1,
      m_data = [grey (1/2), grey (1/2), grey (1/10), grey (9/10), grey (9/10)]\<rparr>
   = Inr \<lparr>m_width = 5, m_height = 1,
          m_data = [Fin (300817/500000), Fin (300817/500000), Fin (871/4000),
                    Fin (492759/500000), Fin (492759/500000)]\<rparr>"
proof -
  let ?img = "\<lparr>m_width = 5, m_height = 1,
      m_data = [grey (1/2), grey (1/2), grey (1/10), grey (9/10), grey (9/10)]\<rparr>"
  have p: "proper_image ?img 5 1" by (simp add: proper_image_def)
  show ?thesis
    by (subst attenuation_prior_proper [OF p]) (simp add: grey_def grey_depth)
qed

lemma normalise_example:
  "normalise \<lparr>m_width = 5, m_height = 1,
          m_data = [Fin (871/4000), Fin (871/4000), Fin (871/4000),
                    Fin (871/4000), Fin (492759/500000)]\<rparr>
     = \<lparr>m_width = 5, m_height = 1, m_data = [Fin 0, Fin 0, Fin 0, Fin 0, Fin 1]\<rparr>"
  by (simp add: normalise_def FLT_MAX_def FLT_MIN_def)

text \<open>
  Claim C5. The claim is that the minimum filter takes the minimum over the window of side
  \<open>kernelSize\<close> centred on the pixel and clipped at the borders, as the box filter does
  (\<open>min_filter_spec\<close>). The program builds the window with \<^verbatim>\<open>centredSubView\<close>, which at the
  left and top borders moves the offset to 0 and keeps the extent: the window is shifted, not
  clipped. On the 5x1 image of the grey values 0.5, 0.5, 0.1, 0.9, 0.9 with kernel size 3, the
  clamped depths are 0.601634, 0.601634, 0.21775, 0.985518, 0.985518; the window of the first
  pixel covers the columns 0, 1 and 2 and its minimum is 0.21775, where the clipped window
  covers the columns 0 and 1, with minimum 0.601634. The program returns 0, 0, 0, 0, 1; the
  claim gives 0.5 for the first pixel.
\<close>

theorem min_filter_window_shifted:
  "attenuation_prior
     \<lparr>m_width = 5, m_height = 1,
      m_data = [grey (1/2), grey (1/2), grey (1/10), grey (9/10), grey (9/10)]\<rparr>
   = Inr \<lparr>m_width = 5, m_height = 1,
          m_data = [Fin (300817/500000), Fin (300817/500000), Fin (871/4000),
                    Fin (492759/500000), Fin (492759/500000)]\<rparr> \<and>
   depth_before_normalise
     \<lparr>m_width = 5, m_height = 1,
      m_data = [grey (1/2), grey (1/2), grey (1/10), grey (9/10), grey (9/10)]\<rparr> 3
   = Inr \<lparr>m_width = 5, m_height = 1,
          m_data = [Fin (871/4000), Fin (871/4000), Fin (871/4000),
                    Fin (871/4000), Fin (492759/500000)]\<rparr> \<and>
   min_filter_spec 3 5 1
     [300817/500000, 300817/500000, 871/4000, 492759/500000, 492759/500000] 0 0
   = 300817/500000 \<and>
   getDepthFromHazyImage
     \<lparr>m_width = 5, m_height = 1,
      m_data = [grey (1/2), grey (1/2), grey (1/10), grey (9/10), grey (9/10)]\<rparr> 3
   = Inr \<lparr>m_width = 5, m_height = 1, m_data = [Fin 0, Fin 0, Fin 0, Fin 0, Fin 1]\<rparr>"
proof -
  have "box_window 3 5 0 = {0, 1}" "box_window 3 1 0 = {0}"
    by (auto simp: box_window_def)
  then have "min_filter_spec 3 5 1
     [300817/500000, 300817/500000, 871/4000, 492759/500000, 492759/500000] 0 0
   = 300817/500000"
    by (simp add: min_filter_spec_def)
  then show ?thesis
    by (simp add: prior_example depth_example getDepthFromHazyImage_def lift1_def
        normalise_example)
qed

lemma depth_example_2:
  "depth_before_normalise \<lparr>m_width = 2, m_height = 1, m_data = [grey (1/10), grey (9/10)]\<rparr> 1
     = Inr \<lparr>m_width = 2, m_height = 1,
            m_data = [Fin (871/4000), Fin (492759/500000)]\<rparr>"
proof -
  let ?img = "\<lparr>m_width = 2, m_height = 1, m_data = [grey (1/10), grey (9/10)]\<rparr>"
  have p: "proper_image ?img 2 1" by (simp add: proper_image_def)
  have k: "(1::nat) < 2 ^ 31" by simp
  show ?thesis
    by (subst depth_before_normalise_proper [OF p k])
       (simp add: grey_def grey_depth image_coords_def
        window_coords_def window_min_def row_major_def centredSubView_def subView_def
        ImageView_def coord_add_def coord_sub_def c_div_def pixel_at_def getIndex_def
        getIndexUnsafe_def clamp_def upt_conv_Cons)
qed

theorem depth_normalised_witness:
  "getDepthFromHazyImage \<lparr>m_width = 2, m_height = 1, m_data = [grey (1/10), grey (9/10)]\<rparr> 1
     = Inr \<lparr>m_width = 2, m_height = 1, m_data = [Fin 0, Fin 1]\<rparr>"
proof -
  let ?img = "\<lparr>m_width = 2, m_height = 1, m_data = [grey (1/10), grey (9/10)]\<rparr>"
  let ?pre = "\<lparr>m_width = 2, m_height = 1,
            m_data = [Fin (871/4000), Fin (492759/500000)]\<rparr>"
  have p: "proper_image ?img 2 1" by (simp add: proper_image_def)
  have "(0::nat) < 2 * 1" "(1::nat) < 2 * 1" "m_data ?pre ! 0 \<noteq> m_data ?pre ! 1"
    by simp_all
  then have two: "\<exists>i < 2 * 1. \<exists>j < 2 * 1. m_data ?pre ! i \<noteq> m_data ?pre ! j"
    by blast
  have gran: "\<forall>i < 2 * 1. \<not> (fless (Fin 0) (m_data ?pre ! i)
                              \<and> fless (m_data ?pre ! i) (Fin FLT_MIN))"
    by (simp add: FLT_MIN_def less_Suc_eq numeral_2_eq_2)
  from depth_normalised [OF p depth_example_2 two gran] obtain out where
    g: "getDepthFromHazyImage ?img 1 = Inr out"
    and w: "m_width out = 2" "m_height out = 1" and l: "length (m_data out) = 2"
    and e: "\<forall>i < 2 * 1.
              (\<exists>a. m_data out ! i = Fin a \<and> 0 \<le> a \<and> a \<le> 1) \<and>
              ((\<forall>j < 2 * 1. \<not> fless (m_data ?pre ! j) (m_data ?pre ! i)) \<longrightarrow> m_data out ! i = Fin 0) \<and>
              ((\<forall>j < 2 * 1. \<not> fless (m_data ?pre ! i) (m_data ?pre ! j)) \<longrightarrow> m_data out ! i = Fin 1)"
    by auto
  have "m_data out ! 0 = Fin 0" using e by (simp add: less_Suc_eq numeral_2_eq_2)
  moreover have "m_data out ! 1 = Fin 1" using e by (simp add: less_Suc_eq numeral_2_eq_2)
  ultimately have "m_data out = [Fin 0, Fin 1]"
    using l by (intro nth_equalityI) (auto simp: less_Suc_eq numeral_2_eq_2)
  then have "out = \<lparr>m_width = 2, m_height = 1, m_data = [Fin 0, Fin 1]\<rparr>"
    using w by (intro image_eqI) simp_all
  then show ?thesis using g by simp
qed

section \<open>Haze removal\<close>

lemma atmospheric_light_proper:
  assumes "proper_image depth W H"
  shows "atmospheric_light nth_element img depth
           = Inr (brightest img (nth_element (W * H div 1000) (farther depth) (image_coords W H))
                    (W * H div 1000))"
  using assms by (simp add: atmospheric_light_def forView_proper [OF assms] nHighest_def
      proper_image_def)

lemma removeHaze_proper:
  assumes i: "proper_image img W H" and d: "proper_image depth W H"
    and A: "atmospheric_light nth_element img depth = Inr A"
  shows "removeHaze nth_element img depth beta
           = Inr \<lparr>m_width = int W, m_height = int H,
                  m_data = map2 (\<lambda>inPixel d. radiance A inPixel (transmission beta d))
                             (m_data img) (m_data depth)\<rparr>"
proof -
  let ?f = "\<lambda>i. radiance A (m_data img ! i) (transmission beta (m_data depth ! i))"
  let ?z = "\<lparr>m_width = int W, m_height = int H, m_data = replicate (W * H) (0::Pixel)\<rparr>"
  let ?res = "fold (\<lambda>i out. out\<lparr>m_data := (m_data out)[i := ?f i]\<rparr>) [0..<W * H] ?z"
  have len: "length (m_data img) = W * H" "length (m_data depth) = W * H"
    using i d by (simp_all add: proper_image_def)
  have dz: "BaseImage_dims (m_width img) (m_height img) = Inr ?z"
    using i BaseImage_dims_proper [of W H] by (simp add: proper_image_def)
  have "m_data ?res = map ?f [0..<W * H] @ drop (W * H) (m_data ?z)"
    by (rule fold_update_data) simp
  also have "\<dots> = map ?f [0..<length (m_data img)]" by (simp add: len)
  also have "\<dots> = map2 (\<lambda>inPixel d. radiance A inPixel (transmission beta d))
                      (m_data img) (m_data depth)"
    using map2_nth [of "m_data img" "m_data depth"
        "\<lambda>inPixel d. radiance A inPixel (transmission beta d)"] len
    by simp
  finally have "?res = \<lparr>m_width = int W, m_height = int H,
                  m_data = map2 (\<lambda>inPixel d. radiance A inPixel (transmission beta d))
                             (m_data img) (m_data depth)\<rparr>"
    by (intro image_eqI) (simp_all add: fold_update_width fold_update_height)
  moreover have "BaseImage_dims (int W) (int H) = Inr ?z"
    using i by (intro BaseImage_dims_proper) (simp_all add: proper_image_def)
  ultimately show ?thesis
    using i d by (simp add: removeHaze_def A proper_image_def)
qed

lemma transmission_range: "\<exists>t. transmission beta d = Fin t \<and> 1 / 10 \<le> t \<and> t \<le> 9 / 10"
proof (cases "fexp (fmul (fneg beta) d)")
  case (Fin a)
  then have "transmission beta d = Fin (max (1 / 10) (min (9 / 10) a))"
    by (simp add: transmission_def)
  moreover have "1 / 10 \<le> max (1 / 10) (min (9 / 10) a)" "max (1 / 10) (min (9 / 10) a) \<le> 9 / 10"
    by simp_all
  ultimately show ?thesis by blast
next
  case PInf
  then have "transmission beta d = Fin (9 / 10)"
    by (simp add: transmission_def fmin_def)
  then show ?thesis by (intro exI [of _ "9 / 10"]) simp
next
  case NInf
  then have "transmission beta d = Fin (1 / 10)"
    by (simp add: transmission_def fmin_def fmax_def)
  then show ?thesis by (intro exI [of _ "1 / 10"]) simp
next
  case NaN
  then have "transmission beta d = Fin (9 / 10)"
    by (simp add: transmission_def fmin_def)
  then show ?thesis by (intro exI [of _ "9 / 10"]) simp
qed

lemma transmission_Fin:
  "transmission (Fin b) (Fin d) = Fin (max (1 / 10) (min (9 / 10) (exp (- b * d))))"
  by (simp add: transmission_def)

lemma transmission_zero: "transmission (Fin 0) d = Fin (9 / 10)"
  by (cases d) (simp_all add: transmission_def fmin_def fmax_def)

lemma radiance_channels:
  "red (radiance A p t) = fadd (red A) (fdiv (fsub (red p) (red A)) t) \<and>
   green (radiance A p t) = fadd (green A) (fdiv (fsub (green p) (green A)) t) \<and>
   blue (radiance A p t) = fadd (blue A) (fdiv (fsub (blue p) (blue A)) t)"
  by (simp add: radiance_def pixel_add_def pixel_div_def pixel_sub_def)

lemma radiance_Fin:
  assumes "t \<noteq> 0"
  shows "radiance (Pixel (Fin ar) (Fin ag) (Fin ab)) (Pixel (Fin r) (Fin g) (Fin b)) (Fin t)
           = Pixel (Fin (ar + (r - ar) / t)) (Fin (ag + (g - ag) / t)) (Fin (ab + (b - ab) / t))"
  using assms by (simp add: radiance_def pixel_add_def pixel_div_def pixel_sub_def)

text \<open>
  Claim C2. On an image and a depth map of equal dimensions \<open>removeHaze\<close> returns, whatever
  \<open>beta\<close> and whatever the partial selection \<open>nth_element\<close> does, the image whose pixel \<open>i\<close> is
  \<open>A + (I\<^sub>i - A) / t\<^sub>i\<close>, computed channel by channel, where \<open>A\<close> is the atmospheric light and
  \<open>t\<^sub>i = max 0.1 (min 0.9 (exp (- beta * d\<^sub>i)))\<close>. The transmission is always a finite number of
  the interval \<open>[0.1, 0.9]\<close> (also for a depth or a \<open>beta\<close> that is not finite, since
  \<open>std::min\<close> and \<open>std::max\<close> keep their first argument when the comparison fails), and the result
  is not clamped: it is exactly the list of the values of \<open>radiance\<close>. With \<open>beta = 0\<close> the
  transmission is \<open>0.9\<close> at every pixel and the output is \<open>A + (I - A) / 0.9\<close>. The example after
  the theorem has an output channel \<open>10/9\<close>, above 1.
\<close>

theorem removeHaze_radiance:
  assumes "proper_image img W H" and "proper_image depth W H"
  shows "\<exists>A. atmospheric_light nth_element img depth = Inr A \<and>
           removeHaze nth_element img depth beta
             = Inr \<lparr>m_width = int W, m_height = int H,
                    m_data = map2 (\<lambda>inPixel d. radiance A inPixel (transmission beta d))
                               (m_data img) (m_data depth)\<rparr> \<and>
           removeHaze nth_element img depth (Fin 0)
             = Inr \<lparr>m_width = int W, m_height = int H,
                    m_data = map (\<lambda>inPixel. radiance A inPixel (Fin (9 / 10))) (m_data img)\<rparr> \<and>
           (\<forall>inPixel t.
              red (radiance A inPixel t) = fadd (red A) (fdiv (fsub (red inPixel) (red A)) t) \<and>
              green (radiance A inPixel t)
                = fadd (green A) (fdiv (fsub (green inPixel) (green A)) t) \<and>
              blue (radiance A inPixel t) = fadd (blue A) (fdiv (fsub (blue inPixel) (blue A)) t)) \<and>
           (\<forall>d. \<exists>t. transmission beta d = Fin t \<and> 1 / 10 \<le> t \<and> t \<le> 9 / 10) \<and>
           (\<forall>b d. transmission (Fin b) (Fin d)
                    = Fin (max (1 / 10) (min (9 / 10) (exp (- b * d))))) \<and>
           (\<forall>d. transmission (Fin 0) d = Fin (9 / 10))"
proof -
  let ?A = "brightest img (nth_element (W * H div 1000) (farther depth) (image_coords W H))
              (W * H div 1000)"
  have A: "atmospheric_light nth_element img depth = Inr ?A"
    by (rule atmospheric_light_proper [OF assms(2)])
  have len: "length (m_data img) = length (m_data depth)"
    using assms by (simp add: proper_image_def)
  have "map2 (\<lambda>inPixel d. radiance ?A inPixel (transmission (Fin 0) d)) (m_data img) (m_data depth)
          = map (\<lambda>inPixel. radiance ?A inPixel (Fin (9 / 10))) (m_data img)"
    using len by (intro nth_equalityI) (simp_all add: transmission_zero)
  then have z: "removeHaze nth_element img depth (Fin 0)
             = Inr \<lparr>m_width = int W, m_height = int H,
                    m_data = map (\<lambda>inPixel. radiance ?A inPixel (Fin (9 / 10))) (m_data img)\<rparr>"
    by (simp only: removeHaze_proper [OF assms A])
  show ?thesis
    using A removeHaze_proper [OF assms A, of beta] z radiance_channels transmission_range
      transmission_Fin transmission_zero
    by (intro exI [of _ ?A]) blast
qed

theorem removeHaze_radiance_witness:
  "removeHaze (\<lambda>n cmp xs. xs)
     \<lparr>m_width = 2, m_height = 1,
      m_data = [Pixel (Fin (9 / 10)) (Fin (9 / 20)) (Fin (9 / 100)), Pixel (Fin 1) (Fin 1) (Fin 1)]\<rparr>
     \<lparr>m_width = 2, m_height = 1, m_data = [Fin (3 / 10), Fin (7 / 10)]\<rparr> (Fin 0)
   = Inr \<lparr>m_width = 2, m_height = 1,
          m_data = [Pixel (Fin 1) (Fin (1 / 2)) (Fin (1 / 10)),
                    Pixel (Fin (10 / 9)) (Fin (10 / 9)) (Fin (10 / 9))]\<rparr>"
proof -
  let ?img = "\<lparr>m_width = 2, m_height = 1,
      m_data = [Pixel (Fin (9 / 10)) (Fin (9 / 20)) (Fin (9 / 100)), Pixel (Fin 1) (Fin 1) (Fin 1)]\<rparr>"
  let ?depth = "\<lparr>m_width = 2, m_height = 1, m_data = [Fin (3 / 10), Fin (7 / 10)]\<rparr>"
  have p: "proper_image ?img 2 1" "proper_image ?depth 2 1" by (simp_all add: proper_image_def)
  from removeHaze_radiance [OF p, of "\<lambda>n cmp xs. xs" "Fin 0"] obtain A where
    A: "atmospheric_light (\<lambda>n cmp xs. xs) ?img ?depth = Inr A"
    and r: "removeHaze (\<lambda>n cmp xs. xs) ?img ?depth (Fin 0)
             = Inr \<lparr>m_width = int 2, m_height = int 1,
                    m_data = map (\<lambda>inPixel. radiance A inPixel (Fin (9 / 10))) (m_data ?img)\<rparr>"
    by blast
  have "atmospheric_light (\<lambda>n cmp xs. xs) ?img ?depth = Inr (Pixel (Fin 0) (Fin 0) (Fin 0))"
    by (subst atmospheric_light_proper [OF p(2)]) (simp add: brightest_def zero_Pixel_def)
  then have "A = Pixel (Fin 0) (Fin 0) (Fin 0)" using A by simp
  then show ?thesis using r by (simp add: radiance_Fin)
qed

lemma fless_irrefl: "\<not> fless a a"
  by (cases a) simp_all

lemma fless_trans: "fless a b \<Longrightarrow> fless b c \<Longrightarrow> fless a c"
  by (cases a; cases b; cases c) simp_all

lemma fless_not_below: "fless a c \<Longrightarrow> \<not> fless a b \<Longrightarrow> \<not> fless c b"
  by (cases a; cases b; cases c) simp_all

lemma luminance_black: "getLuminance 0 = Fin 0"
  by (simp add: getLuminance_def zero_Pixel_def)

lemma brightest_inv:
  "(brightest img coords k = 0 \<or>
      (\<exists>i < k. brightest img coords k = pixel_at img (coords ! i) \<and>
                fless (Fin 0) (getLuminance (brightest img coords k)))) \<and>
   (\<forall>i < k. \<not> fless (getLuminance (brightest img coords k))
                      (getLuminance (pixel_at img (coords ! i))))"
proof (induction k)
  case 0
  show ?case by (simp add: brightest_def)
next
  case (Suc k)
  let ?A = "brightest img coords k" and ?p = "pixel_at img (coords ! k)"
  have step: "brightest img coords (Suc k)
                = (if fless (getLuminance ?A) (getLuminance ?p) then ?p else ?A)"
    by (simp add: brightest_def Let_def)
  show ?case
  proof (cases "fless (getLuminance ?A) (getLuminance ?p)")
    case True
    then have eq: "brightest img coords (Suc k) = ?p" by (simp add: step)
    have "fless (Fin 0) (getLuminance ?p)"
      using Suc True by (auto simp: luminance_black intro: fless_trans)
    moreover have "\<not> fless (getLuminance ?p) (getLuminance (pixel_at img (coords ! i)))"
      if "i < Suc k" for i
    proof (cases "i = k")
      case True
      then show ?thesis by (simp add: fless_irrefl)
    next
      case False
      then have "i < k" using that by simp
      then have "\<not> fless (getLuminance ?A) (getLuminance (pixel_at img (coords ! i)))"
        using Suc by blast
      with True show ?thesis by (rule fless_not_below)
    qed
    ultimately show ?thesis unfolding eq by blast
  next
    case False
    then have eq: "brightest img coords (Suc k) = ?A" by (simp add: step)
    have "\<not> fless (getLuminance ?A) (getLuminance (pixel_at img (coords ! i)))"
      if "i < Suc k" for i
      using that Suc False by (cases "i = k") auto
    moreover have "?A = 0 \<or> (\<exists>i < Suc k. ?A = pixel_at img (coords ! i) \<and>
                fless (Fin 0) (getLuminance ?A))"
      using Suc by (auto intro: less_SucI)
    ultimately show ?thesis unfolding eq by blast
  qed
qed

lemma image_coords_distinct:
  assumes "0 < W"
  shows "distinct (image_coords W H)"
proof -
  have "inj_on (\<lambda>k. (int (k mod W), int (k div W))) (set [0..<W * H])"
  proof (rule inj_onI)
    fix a b assume "(int (a mod W), int (a div W)) = (int (b mod W), int (b div W))"
    then have "a mod W = b mod W" "a div W = b div W" by simp_all
    then show "a = b" by (metis div_mult_mod_eq)
  qed
  then show ?thesis by (simp add: image_coords_def distinct_map)
qed

lemma candidates_deepest:
  assumes post: "nth_element_post n cmp xs ys" and dist: "distinct xs" and n: "n \<le> length xs"
  shows "length (take n ys) = n \<and> distinct (take n ys) \<and> set (take n ys) \<subseteq> set xs \<and>
         (\<forall>c \<in> set (take n ys). \<forall>c' \<in> set xs - set (take n ys). \<not> cmp c' c)"
proof -
  have m: "mset ys = mset xs"
    and p: "\<forall>i < n. \<forall>j < length ys. n \<le> j \<longrightarrow> \<not> cmp (ys ! j) (ys ! i)"
    using post by (simp_all add: nth_element_post_def)
  have len: "length ys = length xs" using m by (rule mset_eq_length)
  have set: "set ys = set xs" using m by (rule mset_eq_setD)
  have dy: "distinct ys" using m dist by (metis mset_eq_imp_distinct_iff)
  have "\<not> cmp c' c" if c: "c \<in> set (take n ys)" and c': "c' \<in> set xs - set (take n ys)" for c c'
  proof -
    from c obtain i where i: "i < n" "i < length ys" "c = ys ! i"
      by (auto simp: in_set_conv_nth)
    from c' have "c' \<in> set ys" "c' \<notin> set (take n ys)" using set by simp_all
    then have "c' \<in> set (drop n ys)" by (metis Un_iff append_take_drop_id set_append)
    then obtain j where j: "j < length ys - n" "c' = drop n ys ! j"
      by (auto simp: in_set_conv_nth)
    then have "c' = ys ! (n + j)" "n + j < length ys" by simp_all
    then show ?thesis using p i by simp
  qed
  then show ?thesis
    using n len dy set by (auto dest: in_set_takeD)
qed

text \<open>
  Claim C1, as amended. On an image and a depth map of equal dimensions \<open>W \<times> H\<close>, and for a
  partial selection that meets the postcondition of \<open>std::nth_element\<close>, the candidates of
  \<open>removeHaze\<close> are exactly \<open>W * H div 1000\<close> distinct coordinates of the image (possibly none:
  the count is not raised to one), no coordinate outside the candidates is deeper than a
  candidate, and the atmospheric light \<open>A\<close> is either the default black pixel or the colour of a
  candidate of positive luminance; in both cases no candidate is brighter than \<open>A\<close>. So \<open>A\<close> is
  the colour of a brightest candidate whenever some candidate has a positive luminance, and
  black when there is no candidate.
\<close>

theorem atmospheric_light_candidates:
  assumes "proper_image img W H" and "proper_image depth W H"
    and "nth_element_post (W * H div 1000) (farther depth) (image_coords W H)
           (nth_element (W * H div 1000) (farther depth) (image_coords W H))"
  shows "\<exists>cands A.
           cands = take (W * H div 1000)
                     (nth_element (W * H div 1000) (farther depth) (image_coords W H)) \<and>
           length cands = W * H div 1000 \<and> distinct cands \<and>
           set cands \<subseteq> set (image_coords W H) \<and>
           (\<forall>c \<in> set cands. \<forall>c' \<in> set (image_coords W H) - set cands.
              \<not> fless (pixel_at depth c) (pixel_at depth c')) \<and>
           atmospheric_light nth_element img depth = Inr A \<and>
           (A = 0 \<or> (\<exists>c \<in> set cands. A = pixel_at img c \<and> fless (Fin 0) (getLuminance A))) \<and>
           (\<forall>c \<in> set cands. \<not> fless (getLuminance A) (getLuminance (pixel_at img c)))"
proof -
  let ?n = "W * H div 1000"
  let ?ys = "nth_element ?n (farther depth) (image_coords W H)"
  let ?cands = "take ?n ?ys"
  let ?A = "brightest img ?ys ?n"
  have W: "0 < W" using assms(1) by (simp add: proper_image_def)
  have n: "?n \<le> length (image_coords W H)" by (simp add: image_coords_def)
  note c = candidates_deepest [OF assms(3) image_coords_distinct [OF W] n]
  have len: "length ?cands = ?n" using c by blast
  have nth: "?cands ! i = ?ys ! i" if "i < ?n" for i using that by simp
  have deep: "\<forall>c \<in> set ?cands. \<forall>c' \<in> set (image_coords W H) - set ?cands.
                \<not> fless (pixel_at depth c) (pixel_at depth c')"
    using c by (simp add: farther_def)
  note b = brightest_inv [of img ?ys ?n]
  have b1: "?A = 0 \<or> (\<exists>c \<in> set ?cands. ?A = pixel_at img c \<and> fless (Fin 0) (getLuminance ?A))"
  proof (cases "?A = 0")
    case True
    then show ?thesis by simp
  next
    case False
    then obtain i where i: "i < ?n" "?A = pixel_at img (?ys ! i)"
      "fless (Fin 0) (getLuminance ?A)"
      using b by blast
    then have "?ys ! i \<in> set ?cands" using nth [OF i(1)] len by (metis nth_mem)
    then show ?thesis using i by blast
  qed
  have b2: "\<forall>c \<in> set ?cands. \<not> fless (getLuminance ?A) (getLuminance (pixel_at img c))"
  proof
    fix c assume "c \<in> set ?cands"
    then obtain i where "i < ?n" "c = ?ys ! i" using len nth by (metis in_set_conv_nth)
    then show "\<not> fless (getLuminance ?A) (getLuminance (pixel_at img c))" using b by blast
  qed
  show ?thesis
    using c deep atmospheric_light_proper [OF assms(2), of nth_element img] b1 b2
    by (intro exI [of _ ?cands] exI [of _ ?A]) blast
qed

theorem atmospheric_light_small_counterexample:
  "nHighest \<lparr>m_width = 1, m_height = 1, m_data = [Fin (7 / 10)]\<rparr> = 0 \<and>
   atmospheric_light (\<lambda>n cmp xs. xs)
     \<lparr>m_width = 1, m_height = 1, m_data = [grey (1 / 2)]\<rparr>
     \<lparr>m_width = 1, m_height = 1, m_data = [Fin (7 / 10)]\<rparr>
   = Inr (Pixel (Fin 0) (Fin 0) (Fin 0))"
proof -
  have p: "proper_image \<lparr>m_width = 1, m_height = 1, m_data = [Fin (7 / 10)]\<rparr> 1 1"
    by (simp add: proper_image_def)
  show ?thesis
    by (subst atmospheric_light_proper [OF p])
       (simp add: nHighest_def brightest_def zero_Pixel_def)
qed

theorem atmospheric_light_candidates_witness:
  "atmospheric_light (\<lambda>n cmp xs. rev xs)
     \<lparr>m_width = 1000, m_height = 1,
      m_data = replicate 999 (grey (1 / 5)) @ [Pixel (Fin (9 / 10)) (Fin (4 / 5)) (Fin (7 / 10))]\<rparr>
     \<lparr>m_width = 1000, m_height = 1, m_data = replicate 999 (Fin 0) @ [Fin 1]\<rparr>
   = Inr (Pixel (Fin (9 / 10)) (Fin (4 / 5)) (Fin (7 / 10)))"
proof -
  define img :: ImageRgb where "img = \<lparr>m_width = 1000, m_height = 1,
      m_data = replicate 999 (grey (1 / 5)) @ [Pixel (Fin (9 / 10)) (Fin (4 / 5)) (Fin (7 / 10))]\<rparr>"
  define depth :: ImageGrey where
    "depth = \<lparr>m_width = 1000, m_height = 1, m_data = replicate 999 (Fin 0) @ [Fin 1]\<rparr>"
  define ys where "ys = rev (image_coords 1000 1)"
  have pi: "proper_image img 1000 1" by (simp add: img_def proper_image_def)
  have pd: "proper_image depth 1000 1" by (simp add: depth_def proper_image_def)
  have len: "length ys = 1000" by (simp add: ys_def image_coords_def)
  have dn: "pixel_at depth (ys ! j) = (Fin 1 # replicate 999 (Fin 0)) ! j" if "j < 1000" for j
  proof -
    have "pixel_at depth (ys ! j) = map (pixel_at depth) ys ! j" using that len by simp
    also have "map (pixel_at depth) ys = rev (m_data depth)"
      by (simp only: ys_def rev_map [symmetric] pixel_at_image_coords [OF pd])
    also have "rev (m_data depth) = Fin 1 # replicate 999 (Fin 0)" by (simp add: depth_def)
    finally show ?thesis .
  qed
  have im: "pixel_at img (ys ! 0) = Pixel (Fin (9 / 10)) (Fin (4 / 5)) (Fin (7 / 10))"
  proof -
    have "pixel_at img (ys ! 0) = map (pixel_at img) ys ! 0" using len by simp
    also have "map (pixel_at img) ys = rev (m_data img)"
      by (simp only: ys_def rev_map [symmetric] pixel_at_image_coords [OF pi])
    also have "rev (m_data img) ! 0 = Pixel (Fin (9 / 10)) (Fin (4 / 5)) (Fin (7 / 10))"
      by (simp add: img_def)
    finally show ?thesis .
  qed
  have post: "nth_element_post (1000 * 1 div 1000) (farther depth) (image_coords 1000 1)
                ((\<lambda>n cmp xs. rev xs) (1000 * 1 div 1000) (farther depth) (image_coords 1000 1))"
  proof -
    have n: "1000 * 1 div 1000 = (1::nat)" by simp
    have "\<not> farther depth (ys ! j) (ys ! i)" if "i < 1" "j < length ys" "1 \<le> j" for i j
    proof -
      have "pixel_at depth (ys ! i) = Fin 1" using that dn [of 0] by simp
      moreover have "pixel_at depth (ys ! j) = Fin 0" using that dn [of j] len by simp
      ultimately show ?thesis by (simp add: farther_def)
    qed
    moreover have "mset ys = mset (image_coords 1000 1)" by (simp only: ys_def mset_rev)
    ultimately show ?thesis unfolding nth_element_post_def n ys_def by blast
  qed
  have cands: "take (1000 * 1 div 1000) ys = [ys ! 0]"
    using len by (cases ys) simp_all
  have lum: "fless (getLuminance 0) (getLuminance (Pixel (Fin (9 / 10)) (Fin (4 / 5)) (Fin (7 / 10))))"
    unfolding luminance_black by (simp add: getLuminance_def)
  from atmospheric_light_candidates [where nth_element = "\<lambda>n cmp xs. rev xs", OF pi pd post]
  obtain A where A: "atmospheric_light (\<lambda>n cmp xs. rev xs) img depth = Inr A"
    "A = 0 \<or> (\<exists>c \<in> set (take (1000 * 1 div 1000) ys). A = pixel_at img c)"
    "\<forall>c \<in> set (take (1000 * 1 div 1000) ys). \<not> fless (getLuminance A) (getLuminance (pixel_at img c))"
    unfolding ys_def by blast
  have "A \<noteq> 0" using A(3) lum im unfolding cands by auto
  then have "A = Pixel (Fin (9 / 10)) (Fin (4 / 5)) (Fin (7 / 10))"
    using A(2) im unfolding cands by auto
  then show ?thesis using A(1) by (simp add: img_def depth_def)
qed
end
